theory Spec2Isabelle
  imports Complex_Main "HOL-Library.Finite_Map"
begin

section \<open>JavaScript strings and numbers\<close>

text \<open>
  A JavaScript string is a finite sequence of UTF-16 code units; \<open>length\<close> counts code
  units.  The model keeps exactly that: a string is a list of code units, each a natural
  number.  \<open>str\<close> embeds an ASCII literal, so that \<open>str ''minLen''\<close> is the string
  \<^verbatim>\<open>"minLen"\<close>.
\<close>

type_synonym jstring = "nat list"

definition str :: "string \<Rightarrow> jstring" where
  "str s = map of_char s"

text \<open>
  \<^verbatim>\<open>String.prototype.trim\<close> strips WhiteSpace and LineTerminator code units from both ends:
  TAB, LF, VT, FF, CR, SP, NBSP, U+1680, U+2000..U+200A, U+2028, U+2029, U+202F, U+205F,
  U+3000 and U+FEFF.
\<close>

definition isWhiteSpace :: "nat \<Rightarrow> bool" where
  "isWhiteSpace c \<longleftrightarrow>
     c = 9 \<or> c = 10 \<or> c = 11 \<or> c = 12 \<or> c = 13 \<or> c = 32 \<or> c = 160 \<or> c = 5760 \<or>
     (8192 \<le> c \<and> c \<le> 8202) \<or> c = 8232 \<or> c = 8233 \<or> c = 8239 \<or> c = 8287 \<or>
     c = 12288 \<or> c = 65279"

definition trim :: "jstring \<Rightarrow> jstring" where
  "trim s = rev (dropWhile isWhiteSpace (rev (dropWhile isWhiteSpace s)))"

text \<open>
  \<^verbatim>\<open>s.split(c)\<close> for a one-character separator: the pieces between the occurrences of
  \<open>c\<close>, so that the empty string gives one empty piece.
\<close>

fun split_on :: "nat \<Rightarrow> jstring \<Rightarrow> jstring list" where
  "split_on c [] = [[]]"
| "split_on c (x # xs) =
     (if x = c then [] # split_on c xs
      else (case split_on c xs of [] \<Rightarrow> [[x]] | y # ys \<Rightarrow> (x # y) # ys))"

text \<open>
  The Number type.  A finite value is kept as the exact rational the numeric literal
  denotes; the rounding of a literal to binary64 is not modelled, so the model is exact on
  the literals a double represents exactly (every integer of magnitude up to \<open>2^53\<close> among
  them).  \<open>-0\<close> and \<open>+0\<close> are both \<open>Fin 0\<close>: no comparison of the program tells them apart.
\<close>

datatype jsnum = NaN | NegInf | Fin rat | PosInf

fun jsnum_le :: "jsnum \<Rightarrow> jsnum \<Rightarrow> bool" where
  "jsnum_le NaN b = False"
| "jsnum_le a NaN = False"
| "jsnum_le NegInf b = True"
| "jsnum_le a PosInf = True"
| "jsnum_le (Fin x) (Fin y) = (x \<le> y)"
| "jsnum_le (Fin x) NegInf = False"
| "jsnum_le PosInf b = False"

definition jsnum_ge :: "jsnum \<Rightarrow> jsnum \<Rightarrow> bool" where
  "jsnum_ge a b = jsnum_le b a"

definition isNaN :: "jsnum \<Rightarrow> bool" where
  "isNaN x \<longleftrightarrow> x = NaN"

definition digit_of :: "nat \<Rightarrow> nat \<Rightarrow> nat option" where
  "digit_of radix c =
     (let d = (if 48 \<le> c \<and> c \<le> 57 then Some (c - 48)
               else if 97 \<le> c \<and> c \<le> 102 then Some (c - 87)
               else if 65 \<le> c \<and> c \<le> 70 then Some (c - 55)
               else None)
      in case d of None \<Rightarrow> None | Some v \<Rightarrow> if v < radix then Some v else None)"

fun digits_value :: "nat \<Rightarrow> nat \<Rightarrow> jstring \<Rightarrow> nat option" where
  "digits_value radix acc [] = Some acc"
| "digits_value radix acc (c # cs) =
     (case digit_of radix c of
        None \<Rightarrow> None
      | Some d \<Rightarrow> digits_value radix (acc * radix + d) cs)"

text \<open>NonDecimalIntegerLiteral: \<^verbatim>\<open>0x\<close>, \<^verbatim>\<open>0o\<close>, \<^verbatim>\<open>0b\<close> (either case), then at least one digit.\<close>

definition nonDecimalLiteral :: "jstring \<Rightarrow> nat option" where
  "nonDecimalLiteral t =
     (case t of
        z # p # ds \<Rightarrow>
          if z = 48 \<and> ds \<noteq> [] then
            (if p = 120 \<or> p = 88 then digits_value 16 0 ds
             else if p = 111 \<or> p = 79 then digits_value 8 0 ds
             else if p = 98 \<or> p = 66 then digits_value 2 0 ds
             else None)
          else None
      | _ \<Rightarrow> None)"

text \<open>ExponentPart after the \<^verbatim>\<open>e\<close>: an optional sign and at least one decimal digit.\<close>

definition exponentValue :: "jstring \<Rightarrow> int option" where
  "exponentValue e =
     (case e of
        [] \<Rightarrow> None
      | c # cs \<Rightarrow>
          if c = 43 then (if cs = [] then None else map_option int (digits_value 10 0 cs))
          else if c = 45 then
            (if cs = [] then None else map_option (\<lambda>n. - int n) (digits_value 10 0 cs))
          else map_option int (digits_value 10 0 (c # cs)))"

definition scale10 :: "rat \<Rightarrow> int \<Rightarrow> rat" where
  "scale10 m e = (if 0 \<le> e then m * 10 ^ nat e else m / 10 ^ nat (- e))"

text \<open>
  StrUnsignedDecimalLiteral other than \<^verbatim>\<open>Infinity\<close>: digits, an optional point with
  digits on at least one side of it, an optional exponent.
\<close>

definition unsignedDecimal :: "jstring \<Rightarrow> rat option" where
  "unsignedDecimal u =
     (let isE = (\<lambda>c. c = 101 \<or> c = 69);
          mant = takeWhile (\<lambda>c. \<not> isE c) u;
          erest = dropWhile (\<lambda>c. \<not> isE c) u;
          ip = takeWhile (\<lambda>c. c \<noteq> 46) mant;
          prest = dropWhile (\<lambda>c. c \<noteq> 46) mant;
          fp = (case prest of [] \<Rightarrow> [] | _ # f \<Rightarrow> f);
          ex = (case erest of [] \<Rightarrow> Some 0 | _ # e \<Rightarrow> exponentValue e)
      in if ip = [] \<and> fp = [] then None
         else case (digits_value 10 0 ip, digits_value 10 0 fp, ex) of
                (Some i, Some f, Some e) \<Rightarrow>
                  Some (scale10 (of_nat i + of_nat f / 10 ^ length fp) e)
              | _ \<Rightarrow> None)"

definition strDecimalLiteral :: "jstring \<Rightarrow> jsnum" where
  "strDecimalLiteral t =
     (let neg = (case t of [] \<Rightarrow> False | c # _ \<Rightarrow> c = 45);
          u = (case t of [] \<Rightarrow> [] | c # cs \<Rightarrow> if c = 43 \<or> c = 45 then cs else t)
      in if u = str ''Infinity'' then (if neg then NegInf else PosInf)
         else case unsignedDecimal u of
                None \<Rightarrow> NaN
              | Some r \<Rightarrow> Fin (if neg then - r else r))"

text \<open>
  \<^verbatim>\<open>Number(s)\<close> for a string: surrounding white space is ignored, the empty string is 0,
  a numeric literal is its value and anything else is NaN.
\<close>

definition js_Number :: "jstring \<Rightarrow> jsnum" where
  "js_Number s =
     (let t = trim s
      in if t = [] then Fin 0
         else case nonDecimalLiteral t of
                Some n \<Rightarrow> Fin (of_nat n)
              | None \<Rightarrow> strDecimalLiteral t)"

text \<open>
  A validator called with fewer arguments than it declares reads \<^verbatim>\<open>undefined\<close> for the
  missing ones; \<^verbatim>\<open>Number(undefined)\<close> is NaN.
\<close>

definition arg :: "jstring list \<Rightarrow> nat \<Rightarrow> jstring option" where
  "arg ps i = (if i < length ps then Some (ps ! i) else None)"

definition js_Number_arg :: "jstring option \<Rightarrow> jsnum" where
  "js_Number_arg a = (case a of None \<Rightarrow> NaN | Some s \<Rightarrow> js_Number s)"

text \<open>
  \<^verbatim>\<open>s.replace(pat, repl)\<close> with a string pattern: the first occurrence of \<open>pat\<close> is
  replaced by \<open>repl\<close>, in which \<^verbatim>\<open>$$\<close> stands for a dollar sign, \<^verbatim>\<open>$&\<close> for the matched
  text, \<^verbatim>\<open>$`\<close> for the text before the match and \<^verbatim>\<open>$'\<close> for the text after it.  A string
  pattern has no capture groups, so \<^verbatim>\<open>$1\<close> and the like stay as they are.
\<close>

fun find_sub :: "jstring \<Rightarrow> jstring \<Rightarrow> (jstring \<times> jstring) option" where
  "find_sub pat [] = (if pat = [] then Some ([], []) else None)"
| "find_sub pat (c # cs) =
     (if take (length pat) (c # cs) = pat then Some ([], drop (length pat) (c # cs))
      else map_option (\<lambda>(b, a). (c # b, a)) (find_sub pat cs))"

fun getSubstitution :: "jstring \<Rightarrow> jstring \<Rightarrow> jstring \<Rightarrow> jstring \<Rightarrow> jstring" where
  "getSubstitution matched pre post [] = []"
| "getSubstitution matched pre post [c] = [c]"
| "getSubstitution matched pre post (c # d # rest) =
     (if c = 36 then
        (if d = 36 then 36 # getSubstitution matched pre post rest
         else if d = 38 then matched @ getSubstitution matched pre post rest
         else if d = 96 then pre @ getSubstitution matched pre post rest
         else if d = 39 then post @ getSubstitution matched pre post rest
         else 36 # getSubstitution matched pre post (d # rest))
      else c # getSubstitution matched pre post (d # rest))"

definition js_replace :: "jstring \<Rightarrow> jstring \<Rightarrow> jstring \<Rightarrow> jstring" where
  "js_replace s pat repl =
     (case find_sub pat s of
        None \<Rightarrow> s
      | Some (b, a) \<Rightarrow> b @ getSubstitution pat b a repl @ a)"

text \<open>The decimal digits of a natural number, as the template literal prints an index.\<close>

fun digits_of_nat :: "nat \<Rightarrow> jstring" where
  "digits_of_nat n =
     (if n < 10 then [48 + n] else digits_of_nat (n div 10) @ [48 + n mod 10])"

section \<open>The rule registry\<close>

text \<open>
  \<^verbatim>\<open>Validator.validators\<close> maps a rule name to its message and its predicate.  A predicate is
  called with the value snapshot as \<^verbatim>\<open>this\<close>, the value, and the parameters of the rule.
  \<open>validator_length\<close> is the \<^verbatim>\<open>length\<close> property of the predicate function, the number of
  parameters it declares (the value included).
\<close>

type_synonym snapshot = "(jstring, jstring) fmap"

record rule_def =
  message :: jstring
  validator :: "snapshot \<Rightarrow> jstring \<Rightarrow> jstring list \<Rightarrow> bool"
  validator_length :: nat

type_synonym registry = "(jstring, rule_def) fmap"

definition required_validator :: "snapshot \<Rightarrow> jstring \<Rightarrow> jstring list \<Rightarrow> bool" where
  "required_validator this v ps \<longleftrightarrow> length (trim v) > 0"

definition minLen_validator :: "snapshot \<Rightarrow> jstring \<Rightarrow> jstring list \<Rightarrow> bool" where
  "minLen_validator this v ps \<longleftrightarrow>
     jsnum_ge (Fin (of_nat (length (trim v)))) (js_Number_arg (arg ps 0))"

definition maxLen_validator :: "snapshot \<Rightarrow> jstring \<Rightarrow> jstring list \<Rightarrow> bool" where
  "maxLen_validator this v ps \<longleftrightarrow>
     jsnum_le (Fin (of_nat (length (trim v)))) (js_Number_arg (arg ps 0))"

definition number_validator :: "snapshot \<Rightarrow> jstring \<Rightarrow> jstring list \<Rightarrow> bool" where
  "number_validator this v ps \<longleftrightarrow> \<not> isNaN (js_Number v)"

definition min_validator :: "snapshot \<Rightarrow> jstring \<Rightarrow> jstring list \<Rightarrow> bool" where
  "min_validator this v ps \<longleftrightarrow> jsnum_ge (js_Number v) (js_Number_arg (arg ps 0))"

definition max_validator :: "snapshot \<Rightarrow> jstring \<Rightarrow> jstring list \<Rightarrow> bool" where
  "max_validator this v ps \<longleftrightarrow> jsnum_le (js_Number v) (js_Number_arg (arg ps 0))"

definition range_validator :: "snapshot \<Rightarrow> jstring \<Rightarrow> jstring list \<Rightarrow> bool" where
  "range_validator this v ps \<longleftrightarrow>
     (let len = Fin (of_nat (length (trim v)))
      in jsnum_ge len (js_Number_arg (arg ps 0)) \<and> jsnum_le len (js_Number_arg (arg ps 1)))"

text \<open>
  The e-mail pattern \<^verbatim>\<open>/^[a-zA-Z0-9._-]+@[a-zA-Z0-9.-]+\.[a-zA-Z]{2,4}$/\<close>.  No class of
  the pattern holds \<^verbatim>\<open>@\<close>, so the local part is the text before the first \<^verbatim>\<open>@\<close>; the last
  class holds no point, so the top-level part is the text after the last point.
\<close>

definition isAlpha :: "nat \<Rightarrow> bool" where
  "isAlpha c \<longleftrightarrow> (97 \<le> c \<and> c \<le> 122) \<or> (65 \<le> c \<and> c \<le> 90)"

definition isAlnum :: "nat \<Rightarrow> bool" where
  "isAlnum c \<longleftrightarrow> isAlpha c \<or> (48 \<le> c \<and> c \<le> 57)"

definition isLocalChar :: "nat \<Rightarrow> bool" where
  "isLocalChar c \<longleftrightarrow> isAlnum c \<or> c = 46 \<or> c = 95 \<or> c = 45"

definition isDomainChar :: "nat \<Rightarrow> bool" where
  "isDomainChar c \<longleftrightarrow> isAlnum c \<or> c = 46 \<or> c = 45"

definition email_test :: "jstring \<Rightarrow> bool" where
  "email_test s =
     (let local = takeWhile (\<lambda>c. c \<noteq> 64) s;
          arest = dropWhile (\<lambda>c. c \<noteq> 64) s
      in case arest of
           [] \<Rightarrow> False
         | _ # host \<Rightarrow>
             (let tld = rev (takeWhile (\<lambda>c. c \<noteq> 46) (rev host));
                  drest = dropWhile (\<lambda>c. c \<noteq> 46) (rev host)
              in case drest of
                   [] \<Rightarrow> False
                 | _ # rdom \<Rightarrow>
                     local \<noteq> [] \<and> list_all isLocalChar local \<and>
                     rdom \<noteq> [] \<and> list_all isDomainChar rdom \<and>
                     2 \<le> length tld \<and> length tld \<le> 4 \<and> list_all isAlpha tld))"

definition email_validator :: "snapshot \<Rightarrow> jstring \<Rightarrow> jstring list \<Rightarrow> bool" where
  "email_validator this v ps \<longleftrightarrow> email_test (trim v)"

text \<open>
  \<^verbatim>\<open>value === this[field]\<close>: the snapshot entry has to exist and be the same string.  With no
  parameter the key read is the string \<^verbatim>\<open>"undefined"\<close>.
\<close>

definition confirm_validator :: "snapshot \<Rightarrow> jstring \<Rightarrow> jstring list \<Rightarrow> bool" where
  "confirm_validator this v ps \<longleftrightarrow>
     fmlookup this (case arg ps 0 of None \<Rightarrow> str ''undefined'' | Some field \<Rightarrow> field) = Some v"

text \<open>The default messages are Russian; they are given by their code units.\<close>

definition msg_required :: jstring where
  "msg_required = [1055, 1086, 1083, 1077, 32, 1086, 1073, 1103, 1079, 1072, 1090, 1077, 1083,
     1100, 1085, 1086, 32, 1076, 1083, 1103, 32, 1079, 1072, 1087, 1086, 1083, 1085, 1077, 1085,
     1080, 1103]"

definition msg_minLen :: jstring where
  "msg_minLen = [1052, 1080, 1085, 1080, 1084, 1091, 1084, 32, 36, 49, 32, 1089, 1080, 1084,
     1074, 1086, 1083, 1086, 1074]"

definition msg_maxLen :: jstring where
  "msg_maxLen = [1052, 1072, 1082, 1089, 1080, 1084, 1091, 1084, 32, 36, 49, 32, 1089, 1080,
     1084, 1074, 1086, 1083, 1086, 1074]"

definition msg_number :: jstring where
  "msg_number = [1047, 1085, 1072, 1095, 1077, 1085, 1080, 1077, 32, 1076, 1086, 1083, 1078,
     1085, 1086, 32, 1073, 1099, 1090, 1100, 32, 1095, 1080, 1089, 1083, 1086, 1084]"

definition msg_min :: jstring where
  "msg_min = [1052, 1080, 1085, 1080, 1084, 1091, 1084, 32, 36, 49]"

definition msg_max :: jstring where
  "msg_max = [1052, 1072, 1082, 1089, 1080, 1084, 1091, 1084, 32, 36, 49]"

definition msg_range :: jstring where
  "msg_range = [1044, 1083, 1080, 1085, 1085, 1072, 32, 1089, 1090, 1088, 1086, 1082, 1080, 32,
     1076, 1086, 1083, 1078, 1085, 1072, 32, 1073, 1099, 1090, 1100, 32, 1086, 1090, 32, 36, 49,
     32, 1076, 1086, 32, 36, 50]"

definition msg_email :: jstring where
  "msg_email = [1053, 1077, 32, 1082, 1086, 1088, 1088, 1077, 1082, 1090, 1085, 1099, 1081, 32,
     69, 45, 109, 97, 105, 108, 32, 1072, 1076, 1088, 1077, 1089]"

definition msg_confirm :: jstring where
  "msg_confirm = [1055, 1072, 1088, 1086, 1083, 1080, 32, 1076, 1086, 1078, 1085, 1099, 32,
     1089, 1086, 1074, 1087, 1072, 1076, 1072, 1090, 1100]"

definition Validator_validators :: registry where
  "Validator_validators = fmap_of_list
     [(str ''required'',
        \<lparr>message = msg_required, validator = required_validator, validator_length = 1\<rparr>),
      (str ''minLen'',
        \<lparr>message = msg_minLen, validator = minLen_validator, validator_length = 2\<rparr>),
      (str ''maxLen'',
        \<lparr>message = msg_maxLen, validator = maxLen_validator, validator_length = 2\<rparr>),
      (str ''number'',
        \<lparr>message = msg_number, validator = number_validator, validator_length = 1\<rparr>),
      (str ''min'',
        \<lparr>message = msg_min, validator = min_validator, validator_length = 2\<rparr>),
      (str ''max'',
        \<lparr>message = msg_max, validator = max_validator, validator_length = 2\<rparr>),
      (str ''range'',
        \<lparr>message = msg_range, validator = range_validator, validator_length = 3\<rparr>),
      (str ''email'',
        \<lparr>message = msg_email, validator = email_validator, validator_length = 1\<rparr>),
      (str ''confirm'',
        \<lparr>message = msg_confirm, validator = confirm_validator, validator_length = 2\<rparr>)]"

text \<open>What the engine can raise.\<close>

datatype error =
    ValidatorNotDefined jstring
  | ValidatorAlreadyPresent jstring
  | ValidatorNotFound jstring
  | ArgumentCount jstring int nat
  | FieldNotFound jstring
  | SyncFieldNotFound jstring jstring
  | InField jstring error
  | TypeError

definition setMessage :: "registry \<Rightarrow> jstring \<Rightarrow> jstring \<Rightarrow> error + registry" where
  "setMessage reg validatorName msg =
     (case fmlookup reg validatorName of
        Some rd \<Rightarrow> Inr (fmupd validatorName (rd\<lparr>message := msg\<rparr>) reg)
      | None \<Rightarrow> Inl (ValidatorNotDefined validatorName))"

definition addValidator :: "registry \<Rightarrow> jstring \<Rightarrow> rule_def \<Rightarrow> bool \<Rightarrow> error + registry" where
  "addValidator reg nm inst replace =
     (if fmlookup reg nm \<noteq> None \<and> \<not> replace then Inl (ValidatorAlreadyPresent nm)
      else Inr (fmupd nm inst reg))"

section \<open>The rule-string parser\<close>

record validator_ref =
  name :: jstring
  parameters :: "jstring list"

definition validatorArgumentsParser :: "jstring option \<Rightarrow> jstring list" where
  "validatorArgumentsParser args = (case args of Some a \<Rightarrow> split_on 44 a | None \<Rightarrow> [])"

definition getNumberOfValidatorArguments :: "registry \<Rightarrow> jstring \<Rightarrow> error + int" where
  "getNumberOfValidatorArguments reg nm =
     (case fmlookup reg nm of
        None \<Rightarrow> Inl TypeError
      | Some rd \<Rightarrow> Inr (int (validator_length rd) - 1))"

text \<open>
  The body of the \<^verbatim>\<open>map\<close> callback of \<^verbatim>\<open>_validatorsParser\<close>, for one segment.
  \<^verbatim>\<open>const [name, rawParams] = elem.split(":")\<close> takes the first two pieces of the split and
  drops the others.
\<close>

definition parseSegment :: "registry \<Rightarrow> jstring \<Rightarrow> error + validator_ref" where
  "parseSegment reg elem =
     (case split_on 58 elem of
        [] \<Rightarrow> Inl (ValidatorNotFound (str ''undefined''))
      | nm # rest \<Rightarrow>
          (let rawParams = (case rest of [] \<Rightarrow> None | r # _ \<Rightarrow> Some r);
               ps = validatorArgumentsParser rawParams
           in if fmlookup reg nm = None then Inl (ValidatorNotFound nm)
              else case getNumberOfValidatorArguments reg nm of
                     Inl e \<Rightarrow> Inl e
                   | Inr argLen \<Rightarrow>
                       if argLen \<noteq> int (length ps) then Inl (ArgumentCount nm argLen (length ps))
                       else Inr \<lparr>name = nm, parameters = ps\<rparr>))"

text \<open>\<^verbatim>\<open>Array.prototype.map\<close> with a callback that may throw: the first throw ends it.\<close>

fun map_throw :: "('a \<Rightarrow> error + 'b) \<Rightarrow> 'a list \<Rightarrow> error + 'b list" where
  "map_throw f [] = Inr []"
| "map_throw f (x # xs) =
     (case f x of
        Inl e \<Rightarrow> Inl e
      | Inr y \<Rightarrow> (case map_throw f xs of Inl e \<Rightarrow> Inl e | Inr ys \<Rightarrow> Inr (y # ys)))"

definition validatorsParser :: "registry \<Rightarrow> jstring \<Rightarrow> error + validator_ref list" where
  "validatorsParser reg vs = map_throw (parseSegment reg) (split_on 124 (trim vs))"


section \<open>The validator instance\<close>

record parsed_field =
  fieldName :: jstring
  syncCall :: "jstring option"
  validators :: "validator_ref list"

text \<open>
  The error element of a field: \<open>visible\<close> says that its class list holds
  \<^verbatim>\<open>input-error--visible\<close>.
\<close>

record element =
  visible :: bool
  textContent :: jstring

text \<open>One call of the error callback, with the frozen object it receives.\<close>

record error_call =
  call_value :: jstring
  call_field :: jstring
  call_errors :: "(jstring, jstring) fmap"

type_synonym error_store = "(jstring, (jstring, jstring) fmap) fmap"

text \<open>
  An object is a finite map of its own properties: the error store, the snapshot and the
  registry are read and written under the names of rules and fields only, and a name that
  \<^verbatim>\<open>Object.prototype\<close> defines, such as \<^verbatim>\<open>constructor\<close>, is taken not to be among them.

  The instance: \<^verbatim>\<open>_fields\<close>, \<^verbatim>\<open>_errors\<close>, \<^verbatim>\<open>_errorMessageElements\<close>, \<^verbatim>\<open>_valueFields\<close>, the
  \<^verbatim>\<open>disabled\<close> property of the submit button, whether the two callbacks are set, and the
  calls of the error callback so far.  The constructor creates an error element for every
  declared field before any listener exists, so the elements are a total function here.
\<close>

record vstate =
  fieldList :: "parsed_field list"
  errors :: error_store
  errorMessageElements :: "jstring \<Rightarrow> element"
  valueFields :: snapshot
  submitDisabled :: bool
  onErrorCallback :: bool
  onSubmitCallback :: bool
  errorCalls :: "error_call list"

fun getErrorMessageLoop :: "nat \<Rightarrow> jstring \<Rightarrow> jstring list \<Rightarrow> jstring" where
  "getErrorMessageLoop index msg [] = msg"
| "getErrorMessageLoop index msg (val # rest) =
     getErrorMessageLoop (Suc index) (js_replace msg (36 # digits_of_nat (index + 1)) val) rest"

definition getErrorMessage :: "jstring \<Rightarrow> jstring list \<Rightarrow> jstring" where
  "getErrorMessage msg ps = getErrorMessageLoop 0 msg ps"

text \<open>
  \<^verbatim>\<open>delete this._errors[field][rule]\<close> inside \<^verbatim>\<open>try\<close>: with no entry for the field the
  TypeError is caught and nothing changes.
\<close>

definition deleteError :: "error_store \<Rightarrow> jstring \<Rightarrow> jstring \<Rightarrow> error_store" where
  "deleteError es f r =
     (case fmlookup es f of None \<Rightarrow> es | Some inner \<Rightarrow> fmupd f (fmdrop r inner) es)"

definition setError :: "error_store \<Rightarrow> jstring \<Rightarrow> jstring \<Rightarrow> jstring \<Rightarrow> error_store" where
  "setError es f r msg =
     (case fmlookup es f of
        None \<Rightarrow> fmupd f (fmupd r msg fmempty) es
      | Some inner \<Rightarrow> fmupd f (fmupd r msg inner) es)"

text \<open>The \<^verbatim>\<open>for\<close> loop of \<^verbatim>\<open>_eventHandler\<close> over the validators of the field.\<close>

fun validatorsLoop ::
  "registry \<Rightarrow> jstring \<Rightarrow> jstring \<Rightarrow> bool \<Rightarrow> bool \<Rightarrow> validator_ref list \<Rightarrow> vstate \<Rightarrow> error + vstate"
where
  "validatorsLoop reg v f isEmpty isRequired [] s = Inr s"
| "validatorsLoop reg v f isEmpty isRequired (val # rest) s =
     (case fmlookup reg (name val) of
        None \<Rightarrow> Inl TypeError
      | Some rd \<Rightarrow>
          (let isValid = validator rd (valueFields s) v (parameters val);
               errorMessage = getErrorMessage (message rd) (parameters val);
               s' = (if isValid \<or> (isEmpty \<and> \<not> isRequired)
                     then s\<lparr>errors := deleteError (errors s) f (name val)\<rparr>
                     else s\<lparr>errors := setError (errors s) f (name val) errorMessage\<rparr>)
           in validatorsLoop reg v f isEmpty isRequired rest s'))"

definition removeEmptyErrorFields :: "vstate \<Rightarrow> vstate" where
  "removeEmptyErrorFields s =
     s\<lparr>errors := fmfilter (\<lambda>f. case fmlookup (errors s) f of
                                    None \<Rightarrow> False
                                  | Some inner \<Rightarrow> fcard (fmdom inner) \<noteq> 0) (errors s)\<rparr>"

text \<open>
  The inner \<^verbatim>\<open>for\<close> loop of \<^verbatim>\<open>_toggleErrorMessages\<close> for one field.  The test
  \<^verbatim>\<open>isError && isError[errorName]\<close> is one of truthiness: an entry whose message is the empty
  string does not pass it.
\<close>

fun toggleLoop :: "(jstring, jstring) fmap option \<Rightarrow> jstring list \<Rightarrow> element \<Rightarrow> element" where
  "toggleLoop isErr [] el = el"
| "toggleLoop isErr (errorName # rest) el =
     (case isErr of
        None \<Rightarrow> toggleLoop isErr rest (el\<lparr>visible := False\<rparr>)
      | Some inner \<Rightarrow>
          (case fmlookup inner errorName of
             None \<Rightarrow> toggleLoop isErr rest (el\<lparr>visible := False\<rparr>)
           | Some msg \<Rightarrow>
               if msg \<noteq> [] then el\<lparr>visible := True, textContent := msg\<rparr>
               else toggleLoop isErr rest (el\<lparr>visible := False\<rparr>)))"

definition toggleField ::
  "error_store \<Rightarrow> (jstring \<Rightarrow> element) \<Rightarrow> parsed_field \<Rightarrow> (jstring \<Rightarrow> element)" where
  "toggleField es els fld =
     els(fieldName fld :=
           toggleLoop (fmlookup es (fieldName fld)) (map name (validators fld)) (els (fieldName fld)))"

definition toggleErrorMessages :: "vstate \<Rightarrow> vstate" where
  "toggleErrorMessages s =
     s\<lparr>errorMessageElements := foldl (toggleField (errors s)) (errorMessageElements s) (fieldList s)\<rparr>"

definition eventHandler :: "registry \<Rightarrow> jstring \<Rightarrow> parsed_field \<Rightarrow> vstate \<Rightarrow> error + vstate" where
  "eventHandler reg v field s =
     (let isEmpty = (length (trim v) = 0);
          isRequired = list_ex (\<lambda>val. name val = str ''required'') (validators field)
      in case validatorsLoop reg v (fieldName field) isEmpty isRequired (validators field) s of
           Inl e \<Rightarrow> Inl e
         | Inr s1 \<Rightarrow>
             (let s2 = s1\<lparr>valueFields := fmupd (fieldName field) v (valueFields s1)\<rparr>;
                  s3 = removeEmptyErrorFields s2;
                  s4 = toggleErrorMessages s3
              in case fmlookup (errors s4) (fieldName field) of
                   None \<Rightarrow> Inr s4
                 | Some inner \<Rightarrow>
                     if onErrorCallback s4
                     then Inr (s4\<lparr>errorCalls := errorCalls s4 @
                            [\<lparr>call_value = v, call_field = fieldName field, call_errors = inner\<rparr>]\<rparr>)
                     else Inr s4))"



definition isError :: "vstate \<Rightarrow> bool" where
  "isError s \<longleftrightarrow> fcard (fmdom (errors s)) \<noteq> 0"


fun submitLoop ::
  "registry \<Rightarrow> (jstring \<Rightarrow> jstring) \<Rightarrow> parsed_field list \<Rightarrow> vstate \<Rightarrow> error + vstate" where
  "submitLoop reg form [] s = Inr s"
| "submitLoop reg form (field # rest) s =
     (case eventHandler reg (form (fieldName field)) field s of
        Inl e \<Rightarrow> Inl e
      | Inr s' \<Rightarrow> submitLoop reg form rest s')"


definition disableSubmitButton :: "vstate \<Rightarrow> bool \<Rightarrow> vstate" where
  "disableSubmitButton s disabled = s\<lparr>submitDisabled := disabled\<rparr>"

definition resetAllErrors :: "vstate \<Rightarrow> vstate" where
  "resetAllErrors s =
     disableSubmitButton
       (s\<lparr>errorMessageElements :=
            foldl (\<lambda>els fld. els(fieldName fld := (els (fieldName fld))\<lparr>visible := False\<rparr>))
              (errorMessageElements s) (fieldList s),
          errors := fmempty\<rparr>)
       False"

definition onError :: "vstate \<Rightarrow> vstate" where
  "onError s = s\<lparr>onErrorCallback := True\<rparr>"

definition onSubmit :: "vstate \<Rightarrow> vstate" where
  "onSubmit s = s\<lparr>onSubmitCallback := True\<rparr>"

text \<open>
  The instance as the constructor leaves it: no error, no recorded value, the error elements
  as \<^verbatim>\<open>document.createElement\<close> makes them, no callback.  \<open>disabled\<close> is the state of the
  submit button in the document.
\<close>

definition newInstance :: "parsed_field list \<Rightarrow> bool \<Rightarrow> vstate" where
  "newInstance flds disabled =
     \<lparr>fieldList = flds, errors = fmempty,
      errorMessageElements = (\<lambda>_. \<lparr>visible = False, textContent = []\<rparr>),
      valueFields = fmempty, submitDisabled = disabled,
      onErrorCallback = False, onSubmitCallback = False, errorCalls = []\<rparr>"


section \<open>The field pipeline compiler\<close>

record field_decl =
  decl_name :: jstring
  valid :: jstring
  decl_syncCall :: "jstring option"

text \<open>
  The body of the \<^verbatim>\<open>map\<close> callback of \<^verbatim>\<open>_fieldsParser\<close>.  \<open>formHas\<close> says which names
  the form has an input for.  An error of the rule-string parser is caught and raised again
  with the name of the field.
\<close>

definition parseField ::
  "registry \<Rightarrow> (jstring \<Rightarrow> bool) \<Rightarrow> jstring list \<Rightarrow> field_decl \<Rightarrow> error + parsed_field" where
  "parseField reg formHas allFieldNames field =
     (if \<not> formHas (decl_name field) then Inl (FieldNotFound (decl_name field))
      else case (case decl_syncCall field of
                   None \<Rightarrow> None
                 | Some d \<Rightarrow> if d \<noteq> [] \<and> \<not> List.member allFieldNames d then Some d else None) of
             Some d \<Rightarrow> Inl (SyncFieldNotFound d (decl_name field))
           | None \<Rightarrow>
               (case validatorsParser reg (valid field) of
                  Inl e \<Rightarrow> Inl (InField (decl_name field) e)
                | Inr vs \<Rightarrow>
                    Inr \<lparr>fieldName = decl_name field, syncCall = decl_syncCall field,
                         validators = vs\<rparr>))"

definition fieldsParser ::
  "registry \<Rightarrow> (jstring \<Rightarrow> bool) \<Rightarrow> field_decl list \<Rightarrow> error + parsed_field list" where
  "fieldsParser reg formHas decls =
     map_throw (parseField reg formHas (map decl_name decls)) decls"

section \<open>Notions used to state the properties\<close>

text \<open>The message stored for a rule of a field, if there is one.\<close>

definition entry :: "error_store \<Rightarrow> jstring \<Rightarrow> jstring \<Rightarrow> jstring option" where
  "entry es f r = (case fmlookup es f of None \<Rightarrow> None | Some inner \<Rightarrow> fmlookup inner r)"

text \<open>The last rule of a pipeline that has a given name.\<close>

fun lastRule :: "jstring \<Rightarrow> validator_ref list \<Rightarrow> validator_ref option" where
  "lastRule n [] = None"
| "lastRule n (val # rest) =
     (case lastRule n rest of
        Some r \<Rightarrow> Some r
      | None \<Rightarrow> if name val = n then Some val else None)"

definition isRequiredField :: "parsed_field \<Rightarrow> bool" where
  "isRequiredField fld = list_ex (\<lambda>val. name val = str ''required'') (validators fld)"

definition predicateHolds :: "registry \<Rightarrow> snapshot \<Rightarrow> jstring \<Rightarrow> validator_ref \<Rightarrow> bool" where
  "predicateHolds reg snap v val =
     (case fmlookup reg (name val) of
        None \<Rightarrow> False
      | Some rd \<Rightarrow> validator rd snap v (parameters val))"

text \<open>
  A rule passes, in the words of the specification: its predicate returns true, or the
  trimmed value is empty and \<^verbatim>\<open>required\<close> is not among the validators of the field.
\<close>

definition rulePasses ::
  "registry \<Rightarrow> snapshot \<Rightarrow> jstring \<Rightarrow> parsed_field \<Rightarrow> validator_ref \<Rightarrow> bool" where
  "rulePasses reg snap v fld val \<longleftrightarrow>
     predicateHolds reg snap v val \<or> (trim v = [] \<and> \<not> isRequiredField fld)"

definition ruleMessage :: "registry \<Rightarrow> validator_ref \<Rightarrow> jstring" where
  "ruleMessage reg val =
     (case fmlookup reg (name val) of
        None \<Rightarrow> []
      | Some rd \<Rightarrow> getErrorMessage (message rd) (parameters val))"

text \<open>Every rule of the pipeline is in the registry, as the parser has checked.\<close>

definition knownRules :: "registry \<Rightarrow> parsed_field \<Rightarrow> bool" where
  "knownRules reg fld = list_all (\<lambda>val. fmlookup reg (name val) \<noteq> None) (validators fld)"

text \<open>
  The first rule name of an order that has a non-empty message among the errors of a field.
\<close>

definition hasMessage :: "(jstring, jstring) fmap \<Rightarrow> jstring \<Rightarrow> bool" where
  "hasMessage inner n = (case fmlookup inner n of None \<Rightarrow> False | Some msg \<Rightarrow> msg \<noteq> [])"

definition firstError :: "(jstring, jstring) fmap \<Rightarrow> jstring list \<Rightarrow> jstring option" where
  "firstError inner order = find (hasMessage inner) order"

text \<open>The first rule name of an order that has an entry among the errors of a field.\<close>

definition hasEntry :: "(jstring, jstring) fmap \<Rightarrow> jstring \<Rightarrow> bool" where
  "hasEntry inner n = (fmlookup inner n \<noteq> None)"

definition firstEntry :: "(jstring, jstring) fmap \<Rightarrow> jstring list \<Rightarrow> jstring option" where
  "firstEntry inner order = find (hasEntry inner) order"

text \<open>
  The states of an instance: the constructor makes the first; a step is one evaluation of a
  declared field (the listeners evaluate nothing else), a reset, or setting a callback.
\<close>

inductive reachable :: "vstate \<Rightarrow> bool" where
  reachable_new: "reachable (newInstance flds disabled)"
| reachable_eval:
    "reachable s \<Longrightarrow> fld \<in> set (fieldList s) \<Longrightarrow> eventHandler reg v fld s = Inr s' \<Longrightarrow>
     reachable s'"
| reachable_reset: "reachable s \<Longrightarrow> reachable (resetAllErrors s)"
| reachable_onError: "reachable s \<Longrightarrow> reachable (onError s)"
| reachable_onSubmit: "reachable s \<Longrightarrow> reachable (onSubmit s)"


text \<open>No field of the store maps to an empty object.\<close>

definition pruned :: "error_store \<Rightarrow> bool" where
  "pruned es \<longleftrightarrow> (\<forall>f. fmlookup es f \<noteq> Some fmempty)"


definition valuesAfter :: "error + vstate \<Rightarrow> snapshot option" where
  "valuesAfter r = (case r of Inl e \<Rightarrow> None | Inr s \<Rightarrow> Some (valueFields s))"

definition entryAfter :: "error + vstate \<Rightarrow> jstring \<Rightarrow> jstring \<Rightarrow> jstring option option" where
  "entryAfter r f n = (case r of Inl e \<Rightarrow> None | Inr s \<Rightarrow> Some (entry (errors s) f n))"

definition elementAfter :: "error + vstate \<Rightarrow> jstring \<Rightarrow> element option" where
  "elementAfter r f = (case r of Inl e \<Rightarrow> None | Inr s \<Rightarrow> Some (errorMessageElements s f))"


section \<open>Example declarations\<close>

definition ref :: "string \<Rightarrow> string list \<Rightarrow> validator_ref" where
  "ref n ps = \<lparr>name = str n, parameters = map str ps\<rparr>"

text \<open>\<^verbatim>\<open>{ name: "name", valid: "required|minLen:4|maxLen:5" }\<close>\<close>

definition nameField :: parsed_field where
  "nameField = \<lparr>fieldName = str ''name'', syncCall = None,
     validators = [ref ''required'' [], ref ''minLen'' [''4''], ref ''maxLen'' [''5'']]\<rparr>"

text \<open>A state with an error shown and the submit button disabled.\<close>

definition erroneous :: vstate where
  "erroneous =
     \<lparr>fieldList = [nameField],
      errors = fmap_of_list [(str ''name'', fmap_of_list [(str ''required'', msg_required)])],
      errorMessageElements = (\<lambda>_. \<lparr>visible = True, textContent = msg_required\<rparr>),
      valueFields = fmap_of_list [(str ''name'', [])],
      submitDisabled = True, onErrorCallback = False, onSubmitCallback = False,
      errorCalls = []\<rparr>"

text \<open>A field whose only rule confirms the field against itself.\<close>

definition pinField :: parsed_field where
  "pinField = \<lparr>fieldName = str ''pin'', syncCall = None,
     validators = [ref ''confirm'' [''pin'']]\<rparr>"

text \<open>
  \<^verbatim>\<open>{ name: "email", valid: "email" }\<close> and the same field with
  \<^verbatim>\<open>"required|email"\<close>.
\<close>

definition mailOptional :: parsed_field where
  "mailOptional = \<lparr>fieldName = str ''email'', syncCall = None,
     validators = [ref ''email'' []]\<rparr>"



text \<open>
  The default registry after \<^verbatim>\<open>Validator.setMessage("required", "")\<close>.
\<close>

definition silentRequired :: registry where
  "silentRequired =
     fmupd (str ''required'')
       \<lparr>message = [], validator = required_validator, validator_length = 1\<rparr>
       Validator_validators"

text \<open>
  The message shown for a field is the one of the first rule, in the order of the
  validators, that has an entry in the error store.
\<close>

definition showsFirstEntry :: "error + vstate \<Rightarrow> parsed_field \<Rightarrow> bool" where
  "showsFirstEntry r fld =
     (case r of
        Inl e \<Rightarrow> False
      | Inr s \<Rightarrow>
          (case fmlookup (errors s) (fieldName fld) of
             None \<Rightarrow> False
           | Some inner \<Rightarrow>
               (case firstEntry inner (map name (validators fld)) of
                  None \<Rightarrow> False
                | Some n \<Rightarrow>
                    visible (errorMessageElements s (fieldName fld)) \<and>
                    fmlookup inner n = Some (textContent (errorMessageElements s (fieldName fld))))))"

text \<open>Two fields with the same two rules in the two orders, and a store with both errors.\<close>

definition minMaxField :: parsed_field where
  "minMaxField = \<lparr>fieldName = str ''first'', syncCall = None,
     validators = [ref ''minLen'' [''4''], ref ''maxLen'' [''5'']]\<rparr>"

definition maxMinField :: parsed_field where
  "maxMinField = \<lparr>fieldName = str ''second'', syncCall = None,
     validators = [ref ''maxLen'' [''5''], ref ''minLen'' [''4'']]\<rparr>"

definition bothErrors :: vstate where
  "bothErrors =
     (newInstance [minMaxField, maxMinField] False)
       \<lparr>errors := fmap_of_list
          [(str ''first'', fmap_of_list [(str ''minLen'', str ''too short''),
                                        (str ''maxLen'', str ''too long'')]),
           (str ''second'', fmap_of_list [(str ''minLen'', str ''too short''),
                                         (str ''maxLen'', str ''too long'')])]\<rparr>"




text \<open>
  \<^verbatim>\<open>{ name: "age", valid: "required|number|min:10|max:32" }\<close>, and two states of the
  inputs of the form.
\<close>

definition ageField :: parsed_field where
  "ageField = \<lparr>fieldName = str ''age'', syncCall = None,
     validators = [ref ''required'' [], ref ''number'' [], ref ''min'' [''10''],
                   ref ''max'' [''32'']]\<rparr>"




text \<open>
  \<^verbatim>\<open>{ name: "password", valid: "required|minLen:5", syncCall: "confirm" }\<close> and
  \<^verbatim>\<open>{ name: "confirm", valid: "required|confirm:password" }\<close>.
\<close>

definition passwordField :: parsed_field where
  "passwordField = \<lparr>fieldName = str ''password'', syncCall = Some (str ''confirm''),
     validators = [ref ''required'' [], ref ''minLen'' [''5'']]\<rparr>"

definition confirmField :: parsed_field where
  "confirmField = \<lparr>fieldName = str ''confirm'', syncCall = None,
     validators = [ref ''required'' [], ref ''confirm'' [''password'']]\<rparr>"


text \<open>
  The segments of a rule string and the rule name of a segment, as \<^verbatim>\<open>_validatorsParser\<close>
  takes them: the pieces between the bars of the trimmed string, and of each the piece
  before its first colon.
\<close>

definition segments :: "jstring \<Rightarrow> jstring list" where
  "segments vs = split_on 124 (trim vs)"

definition segmentName :: "jstring \<Rightarrow> jstring" where
  "segmentName seg = (case split_on 58 seg of [] \<Rightarrow> str ''undefined'' | nm # _ \<Rightarrow> nm)"

text \<open>
  The parameters a segment supplies, in the words of the specification: the segment is split
  at its first colon, and what follows the colon is a list separated by commas; without a
  colon there is no parameter.
\<close>

definition specParameters :: "jstring \<Rightarrow> jstring list" where
  "specParameters seg =
     (case dropWhile (\<lambda>c. c \<noteq> 58) seg of [] \<Rightarrow> [] | _ # ps \<Rightarrow> split_on 44 ps)"

text \<open>The fields that \<^verbatim>\<open>index.js\<close> declares.\<close>

definition indexFields :: "field_decl list" where
  "indexFields =
     [\<lparr>decl_name = str ''name'', valid = str ''required|minLen:4|maxLen:5'', decl_syncCall = None\<rparr>,
      \<lparr>decl_name = str ''tel'', valid = str ''required|minLen:4'', decl_syncCall = None\<rparr>,
      \<lparr>decl_name = str ''age'', valid = str ''required|number|min:10|max:32'',
        decl_syncCall = None\<rparr>,
      \<lparr>decl_name = str ''email'', valid = str ''email'', decl_syncCall = None\<rparr>,
      \<lparr>decl_name = str ''password'', valid = str ''required|minLen:5'',
        decl_syncCall = Some (str ''confirm'')\<rparr>,
      \<lparr>decl_name = str ''confirm'', valid = str ''required|confirm:password'',
        decl_syncCall = None\<rparr>]"

definition telField :: parsed_field where
  "telField = \<lparr>fieldName = str ''tel'', syncCall = None,
     validators = [ref ''required'' [], ref ''minLen'' [''4'']]\<rparr>"

section \<open>The evaluation loop and the pruning step\<close>

lemma entry_deleteError:
  "entry (deleteError es f r) g n = (if g = f \<and> n = r then None else entry es g n)"
  by (auto simp: entry_def deleteError_def split: option.splits)

lemma entry_setError:
  "entry (setError es f r m) g n = (if g = f \<and> n = r then Some m else entry es g n)"
  by (auto simp: entry_def setError_def split: option.splits)

lemma validatorsLoop_frame:
  "validatorsLoop reg v f isEmpty isRequired vals s = Inr s' \<Longrightarrow>
   valueFields s' = valueFields s \<and> fieldList s' = fieldList s \<and>
   errorMessageElements s' = errorMessageElements s \<and> submitDisabled s' = submitDisabled s \<and>
   onErrorCallback s' = onErrorCallback s \<and> onSubmitCallback s' = onSubmitCallback s \<and>
   errorCalls s' = errorCalls s"
proof (induction vals arbitrary: s)
  case Nil
  then show ?case by simp
next
  case (Cons val rest)
  from Cons.prems obtain rd where rd: "fmlookup reg (name val) = Some rd"
    by (auto split: option.splits)
  show ?case
  proof (cases "validator rd (valueFields s) v (parameters val) \<or> (isEmpty \<and> \<not> isRequired)")
    case True
    with Cons.prems rd
    have "validatorsLoop reg v f isEmpty isRequired rest
            (s\<lparr>errors := deleteError (errors s) f (name val)\<rparr>) = Inr s'"
      by (simp add: Let_def)
    from Cons.IH[OF this] show ?thesis by simp
  next
    case False
    with Cons.prems rd
    have "validatorsLoop reg v f isEmpty isRequired rest
            (s\<lparr>errors := setError (errors s) f (name val)
                  (getErrorMessage (message rd) (parameters val))\<rparr>) = Inr s'"
      by (simp add: Let_def)
    from Cons.IH[OF this] show ?thesis by simp
  qed
qed

lemma validatorsLoop_entry:
  "validatorsLoop reg v f isEmpty isRequired vals s = Inr s' \<Longrightarrow>
   entry (errors s') g n =
     (if g = f then
        (case lastRule n vals of
           None \<Rightarrow> entry (errors s) g n
         | Some val \<Rightarrow>
             if predicateHolds reg (valueFields s) v val \<or> (isEmpty \<and> \<not> isRequired) then None
             else Some (ruleMessage reg val))
      else entry (errors s) g n)"
proof (induction vals arbitrary: s)
  case Nil
  then show ?case by simp
next
  case (Cons val rest)
  from Cons.prems obtain rd where rd: "fmlookup reg (name val) = Some rd"
    by (auto split: option.splits)
  define s1 where "s1 =
    (if validator rd (valueFields s) v (parameters val) \<or> (isEmpty \<and> \<not> isRequired)
     then s\<lparr>errors := deleteError (errors s) f (name val)\<rparr>
     else s\<lparr>errors := setError (errors s) f (name val)
            (getErrorMessage (message rd) (parameters val))\<rparr>)"
  have loop: "validatorsLoop reg v f isEmpty isRequired rest s1 = Inr s'"
    using Cons.prems rd by (simp add: s1_def Let_def)
  have vf: "valueFields s1 = valueFields s"
    by (simp add: s1_def)
  have e1: "entry (errors s1) g n =
      (if g = f \<and> n = name val then
         (if predicateHolds reg (valueFields s) v val \<or> (isEmpty \<and> \<not> isRequired) then None
          else Some (ruleMessage reg val))
       else entry (errors s) g n)"
    by (simp add: s1_def entry_deleteError entry_setError predicateHolds_def ruleMessage_def rd)
  show ?case
    using Cons.IH[OF loop] vf e1
    by (auto split: option.splits simp: predicateHolds_def)
qed

lemma validatorsLoop_total:
  "list_all (\<lambda>val. fmlookup reg (name val) \<noteq> None) vals \<Longrightarrow>
   \<exists>s'. validatorsLoop reg v f isEmpty isRequired vals s = Inr s'"
  by (induction vals arbitrary: s) (auto simp: Let_def)

lemma validatorsLoop_known:
  "validatorsLoop reg v f isEmpty isRequired vals s = Inr s' \<Longrightarrow>
   list_all (\<lambda>val. fmlookup reg (name val) \<noteq> None) vals"
  by (induction vals arbitrary: s) (auto simp: Let_def split: option.splits)

lemma fmdom_empty_iff: "fmdom m = {||} \<longleftrightarrow> (\<forall>n. fmlookup m n = None)"
proof
  assume "fmdom m = {||}"
  then show "\<forall>n. fmlookup m n = None"
    by (metis fmdom_notD fempty_iff)
next
  assume "\<forall>n. fmlookup m n = None"
  then show "fmdom m = {||}"
    by (metis fmdom_notI fmlookup_dom_iff fset_eqI fempty_iff option.distinct(1))
qed

lemma lookup_removeEmpty:
  "fmlookup (errors (removeEmptyErrorFields s)) f =
     (case fmlookup (errors s) f of
        None \<Rightarrow> None
      | Some inner \<Rightarrow> if fmdom inner = {||} then None else Some inner)"
  by (simp add: removeEmptyErrorFields_def split: option.splits)

lemma entry_removeEmpty:
  "entry (errors (removeEmptyErrorFields s)) f n = entry (errors s) f n"
  by (auto simp: entry_def lookup_removeEmpty fmdom_empty_iff split: option.splits)


lemma removeEmpty_frame:
  "removeEmptyErrorFields s = s\<lparr>errors := errors (removeEmptyErrorFields s)\<rparr>"
  by (simp add: removeEmptyErrorFields_def)

lemma toggle_frame:
  "toggleErrorMessages s = s\<lparr>errorMessageElements := errorMessageElements (toggleErrorMessages s)\<rparr>"
  by (simp add: toggleErrorMessages_def)



lemma removeEmpty_sel:
  "valueFields (removeEmptyErrorFields s) = valueFields s"
  "fieldList (removeEmptyErrorFields s) = fieldList s"
  "errorMessageElements (removeEmptyErrorFields s) = errorMessageElements s"
  "submitDisabled (removeEmptyErrorFields s) = submitDisabled s"
  "onErrorCallback (removeEmptyErrorFields s) = onErrorCallback s"
  "onSubmitCallback (removeEmptyErrorFields s) = onSubmitCallback s"
  "errorCalls (removeEmptyErrorFields s) = errorCalls s"
  by (simp_all add: removeEmptyErrorFields_def)

lemma toggle_sel:
  "errors (toggleErrorMessages s) = errors s"
  "valueFields (toggleErrorMessages s) = valueFields s"
  "fieldList (toggleErrorMessages s) = fieldList s"
  "errorMessageElements (toggleErrorMessages s) =
     foldl (toggleField (errors s)) (errorMessageElements s) (fieldList s)"
  "submitDisabled (toggleErrorMessages s) = submitDisabled s"
  "onErrorCallback (toggleErrorMessages s) = onErrorCallback s"
  "onSubmitCallback (toggleErrorMessages s) = onSubmitCallback s"
  "errorCalls (toggleErrorMessages s) = errorCalls s"
  by (simp_all add: toggleErrorMessages_def)

lemma removeEmpty_errors_cong:
  "errors a = errors b \<Longrightarrow>
   errors (removeEmptyErrorFields a) = errors (removeEmptyErrorFields b)"
  by (rule fmap_ext) (simp add: lookup_removeEmpty)

lemma eventHandler_unfold:
  assumes "eventHandler reg v fld s = Inr s'"
  shows "\<exists>s1. validatorsLoop reg v (fieldName fld) (trim v = []) (isRequiredField fld)
                 (validators fld) s = Inr s1 \<and>
           s' = (let s4 = toggleErrorMessages (removeEmptyErrorFields
                            (s1\<lparr>valueFields := fmupd (fieldName fld) v (valueFields s1)\<rparr>))
                 in case fmlookup (errors s4) (fieldName fld) of
                      None \<Rightarrow> s4
                    | Some inner \<Rightarrow>
                        if onErrorCallback s4
                        then s4\<lparr>errorCalls := errorCalls s4 @
                               [\<lparr>call_value = v, call_field = fieldName fld,
                                 call_errors = inner\<rparr>]\<rparr>
                        else s4)"
proof (cases "validatorsLoop reg v (fieldName fld) (trim v = []) (isRequiredField fld)
                 (validators fld) s")
  case (Inl e)
  then show ?thesis
    using assms by (simp add: eventHandler_def isRequiredField_def)
next
  case (Inr s1)
  define s4 where "s4 = toggleErrorMessages (removeEmptyErrorFields
                            (s1\<lparr>valueFields := fmupd (fieldName fld) v (valueFields s1)\<rparr>))"
  have "eventHandler reg v fld s =
      (case fmlookup (errors s4) (fieldName fld) of
                   None \<Rightarrow> Inr s4
                 | Some inner \<Rightarrow>
                     if onErrorCallback s4
                     then Inr (s4\<lparr>errorCalls := errorCalls s4 @
                            [\<lparr>call_value = v, call_field = fieldName fld, call_errors = inner\<rparr>]\<rparr>)
                     else Inr s4)"
    unfolding eventHandler_def s4_def using Inr
    by (simp add: isRequiredField_def Let_def)
  then have "s' = (case fmlookup (errors s4) (fieldName fld) of
                      None \<Rightarrow> s4
                    | Some inner \<Rightarrow>
                        if onErrorCallback s4
                        then s4\<lparr>errorCalls := errorCalls s4 @
                               [\<lparr>call_value = v, call_field = fieldName fld,
                                 call_errors = inner\<rparr>]\<rparr>
                        else s4)"
    using assms by (cases "fmlookup (errors s4) (fieldName fld)") (simp_all split: if_splits)
  then show ?thesis
    using Inr unfolding s4_def Let_def by blast
qed

lemma eventHandler_Inr:
  assumes "eventHandler reg v fld s = Inr s'"
  shows "\<exists>s1. validatorsLoop reg v (fieldName fld) (trim v = []) (isRequiredField fld)
                 (validators fld) s = Inr s1 \<and>
              errors s' = errors (removeEmptyErrorFields s1) \<and>
              valueFields s' = fmupd (fieldName fld) v (valueFields s) \<and>
              fieldList s' = fieldList s \<and>
              errorMessageElements s' =
                foldl (toggleField (errors s')) (errorMessageElements s) (fieldList s) \<and>
              submitDisabled s' = submitDisabled s \<and>
              onErrorCallback s' = onErrorCallback s \<and>
              onSubmitCallback s' = onSubmitCallback s \<and>
              errorCalls s' = errorCalls s @
                (case fmlookup (errors s') (fieldName fld) of
                   None \<Rightarrow> []
                 | Some inner \<Rightarrow>
                     if onErrorCallback s
                     then [\<lparr>call_value = v, call_field = fieldName fld, call_errors = inner\<rparr>]
                     else [])"
proof -
  from eventHandler_unfold[OF assms] obtain s1 where
    loop: "validatorsLoop reg v (fieldName fld) (trim v = []) (isRequiredField fld)
             (validators fld) s = Inr s1"
    and s': "s' = (let s4 = toggleErrorMessages (removeEmptyErrorFields
                            (s1\<lparr>valueFields := fmupd (fieldName fld) v (valueFields s1)\<rparr>))
                 in case fmlookup (errors s4) (fieldName fld) of
                      None \<Rightarrow> s4
                    | Some inner \<Rightarrow>
                        if onErrorCallback s4
                        then s4\<lparr>errorCalls := errorCalls s4 @
                               [\<lparr>call_value = v, call_field = fieldName fld,
                                 call_errors = inner\<rparr>]\<rparr>
                        else s4)"
    by blast
  have f1: "valueFields s1 = valueFields s" "fieldList s1 = fieldList s"
    "errorMessageElements s1 = errorMessageElements s" "submitDisabled s1 = submitDisabled s"
    "onErrorCallback s1 = onErrorCallback s" "onSubmitCallback s1 = onSubmitCallback s"
    "errorCalls s1 = errorCalls s"
    using validatorsLoop_frame[OF loop] by simp_all
  define s4 where "s4 = toggleErrorMessages (removeEmptyErrorFields
                            (s1\<lparr>valueFields := fmupd (fieldName fld) v (valueFields s1)\<rparr>))"
  define s2 where "s2 = s1\<lparr>valueFields := fmupd (fieldName fld) v (valueFields s1)\<rparr>"
  have s4: "s4 = toggleErrorMessages (removeEmptyErrorFields s2)"
    by (simp add: s4_def s2_def)
  have e2: "errors (removeEmptyErrorFields s2) = errors (removeEmptyErrorFields s1)"
    by (rule removeEmpty_errors_cong) (simp add: s2_def)
  have e4: "errors s4 = errors (removeEmptyErrorFields s1)"
    by (simp add: s4 toggle_sel e2)
  have v4: "valueFields s4 = fmupd (fieldName fld) v (valueFields s)"
    by (simp add: s4 toggle_sel removeEmpty_sel s2_def f1)
  have l4: "fieldList s4 = fieldList s"
    by (simp add: s4 toggle_sel removeEmpty_sel s2_def f1)
  have m4: "errorMessageElements s4 =
      foldl (toggleField (errors s4)) (errorMessageElements s) (fieldList s)"
    unfolding e4 by (simp add: s4 toggle_sel removeEmpty_sel e2) (simp add: s2_def f1)
  have d4: "submitDisabled s4 = submitDisabled s" "onErrorCallback s4 = onErrorCallback s"
    "onSubmitCallback s4 = onSubmitCallback s" "errorCalls s4 = errorCalls s"
    by (simp_all add: s4 toggle_sel removeEmpty_sel s2_def f1)
  have s'4: "s' = (case fmlookup (errors s4) (fieldName fld) of
                      None \<Rightarrow> s4
                    | Some inner \<Rightarrow>
                        if onErrorCallback s4
                        then s4\<lparr>errorCalls := errorCalls s4 @
                               [\<lparr>call_value = v, call_field = fieldName fld,
                                 call_errors = inner\<rparr>]\<rparr>
                        else s4)"
    using s' unfolding s4_def Let_def .
  have c1: "errors s' = errors s4"
    by (simp add: s'4 split: option.splits)
  have c2: "valueFields s' = valueFields s4"
    by (simp add: s'4 split: option.splits)
  have c3: "fieldList s' = fieldList s4"
    by (simp add: s'4 split: option.splits)
  have c4: "errorMessageElements s' = errorMessageElements s4"
    by (simp add: s'4 split: option.splits)
  have c5: "submitDisabled s' = submitDisabled s4" "onErrorCallback s' = onErrorCallback s4"
    "onSubmitCallback s' = onSubmitCallback s4"
    by (simp_all add: s'4 split: option.splits)
  have c6: "errorCalls s' = errorCalls s4 @
                (case fmlookup (errors s4) (fieldName fld) of
                   None \<Rightarrow> []
                 | Some inner \<Rightarrow>
                     if onErrorCallback s4
                     then [\<lparr>call_value = v, call_field = fieldName fld, call_errors = inner\<rparr>]
                     else [])"
    by (simp add: s'4 split: option.splits)
  show ?thesis
  proof (intro exI[of _ s1] conjI)
    show "validatorsLoop reg v (fieldName fld) (trim v = []) (isRequiredField fld)
                 (validators fld) s = Inr s1" by (rule loop)
    show "errors s' = errors (removeEmptyErrorFields s1)" by (simp only: c1 e4)
    show "valueFields s' = fmupd (fieldName fld) v (valueFields s)" by (simp only: c2 v4)
    show "fieldList s' = fieldList s" by (simp only: c3 l4)
    show "errorMessageElements s' =
                foldl (toggleField (errors s')) (errorMessageElements s) (fieldList s)"
      by (simp only: c4 c1 m4)
    show "submitDisabled s' = submitDisabled s" by (simp only: c5 d4)
    show "onErrorCallback s' = onErrorCallback s" by (simp only: c5 d4)
    show "onSubmitCallback s' = onSubmitCallback s" by (simp only: c5 d4)
    show "errorCalls s' = errorCalls s @
                (case fmlookup (errors s') (fieldName fld) of
                   None \<Rightarrow> []
                 | Some inner \<Rightarrow>
                     if onErrorCallback s
                     then [\<lparr>call_value = v, call_field = fieldName fld, call_errors = inner\<rparr>]
                     else [])"
      by (simp only: c6 c1 d4)
  qed
qed

section \<open>What one evaluation does\<close>

lemma eventHandler_entry:
  assumes "eventHandler reg v fld s = Inr s'"
  shows "entry (errors s') g n =
     (if g = fieldName fld then
        (case lastRule n (validators fld) of
           None \<Rightarrow> entry (errors s) g n
         | Some val \<Rightarrow>
             if rulePasses reg (valueFields s) v fld val then None
             else Some (ruleMessage reg val))
      else entry (errors s) g n)"
proof -
  from eventHandler_Inr[OF assms] obtain s1 where
    loop: "validatorsLoop reg v (fieldName fld) (trim v = []) (isRequiredField fld)
             (validators fld) s = Inr s1"
    and e: "errors s' = errors (removeEmptyErrorFields s1)"
    by blast
  show ?thesis
    unfolding e entry_removeEmpty validatorsLoop_entry[OF loop] rulePasses_def ..
qed


lemma eventHandler_sel:
  assumes "eventHandler reg v fld s = Inr s'"
  shows "valueFields s' = fmupd (fieldName fld) v (valueFields s)"
    and "fieldList s' = fieldList s"
    and "errorMessageElements s' =
           foldl (toggleField (errors s')) (errorMessageElements s) (fieldList s)"
    and "submitDisabled s' = submitDisabled s"
    and "onErrorCallback s' = onErrorCallback s"
    and "onSubmitCallback s' = onSubmitCallback s"
  using eventHandler_Inr[OF assms] by blast+

lemma eventHandler_calls:
  assumes "eventHandler reg v fld s = Inr s'"
  shows "errorCalls s' = errorCalls s @
                (case fmlookup (errors s') (fieldName fld) of
                   None \<Rightarrow> []
                 | Some inner \<Rightarrow>
                     if onErrorCallback s
                     then [\<lparr>call_value = v, call_field = fieldName fld, call_errors = inner\<rparr>]
                     else [])"
  using eventHandler_Inr[OF assms] by blast

lemma eventHandler_total:
  assumes "knownRules reg fld"
  shows "\<exists>s'. eventHandler reg v fld s = Inr s'"
proof -
  from validatorsLoop_total[OF assms[unfolded knownRules_def]]
  obtain s1 where "validatorsLoop reg v (fieldName fld) (length (trim v) = 0)
             (list_ex (\<lambda>val. name val = str ''required'') (validators fld))
             (validators fld) s = Inr s1"
    by blast
  then show ?thesis
    unfolding eventHandler_def Let_def by (simp split: option.split)
qed

lemma eventHandler_known:
  assumes "eventHandler reg v fld s = Inr s'"
  shows "knownRules reg fld"
  using eventHandler_Inr[OF assms] validatorsLoop_known
  unfolding knownRules_def by blast

section \<open>Which message is shown\<close>

lemma toggleLoop_None:
  "toggleLoop None order el = (if order = [] then el else el\<lparr>visible := False\<rparr>)"
  by (induction order arbitrary: el) auto

lemma toggleLoop_step:
  "toggleLoop (Some inner) (n # rest) el =
     (if hasMessage inner n
      then (case fmlookup inner n of
              None \<Rightarrow> el
            | Some msg \<Rightarrow> \<lparr>visible = True, textContent = msg\<rparr>)
      else toggleLoop (Some inner) rest (el\<lparr>visible := False\<rparr>))"
  by (cases "fmlookup inner n") (simp_all add: hasMessage_def)

lemma toggleLoop_no_error:
  "firstError inner order = None \<Longrightarrow>
   toggleLoop (Some inner) order el = (if order = [] then el else el\<lparr>visible := False\<rparr>)"
proof (induction order arbitrary: el)
  case Nil
  then show ?case by simp
next
  case (Cons n rest)
  from Cons.prems have h: "\<not> hasMessage inner n" and r: "firstError inner rest = None"
    by (auto simp: firstError_def split: if_splits)
  show ?case
    unfolding toggleLoop_step using h Cons.IH[OF r] by simp
qed

lemma toggleLoop_first_error:
  "firstError inner order = Some r \<Longrightarrow> fmlookup inner r = Some msg \<Longrightarrow>
   toggleLoop (Some inner) order el = \<lparr>visible = True, textContent = msg\<rparr>"
proof (induction order arbitrary: el)
  case Nil
  then show ?case by (simp add: firstError_def)
next
  case (Cons n rest)
  show ?case
  proof (cases "hasMessage inner n")
    case True
    then have "r = n" using Cons.prems(1) by (simp add: firstError_def)
    then show ?thesis
      unfolding toggleLoop_step using True Cons.prems(2) by simp
  next
    case False
    then have "firstError inner rest = Some r"
      using Cons.prems(1) by (simp add: firstError_def)
    from Cons.IH[OF this Cons.prems(2)] show ?thesis
      unfolding toggleLoop_step using False by simp
  qed
qed

lemma firstError_Some:
  "firstError inner order = Some r \<Longrightarrow> hasMessage inner r \<and> r \<in> set order"
  unfolding firstError_def
  by (induction order) (auto split: if_splits)

lemma firstError_eq_firstEntry:
  "(\<And>n msg. fmlookup inner n = Some msg \<Longrightarrow> msg \<noteq> []) \<Longrightarrow>
   firstError inner order = firstEntry inner order"
proof -
  assume a: "\<And>n msg. fmlookup inner n = Some msg \<Longrightarrow> msg \<noteq> []"
  have "hasMessage inner = hasEntry inner"
    using a by (auto simp: hasMessage_def hasEntry_def fun_eq_iff split: option.splits)
  then show ?thesis
    by (simp add: firstError_def firstEntry_def)
qed

lemma foldl_toggleField_other:
  "f \<notin> fieldName ` set flds \<Longrightarrow> foldl (toggleField es) els flds f = els f"
  by (induction flds arbitrary: els) (auto simp: toggleField_def)

lemma foldl_toggleField_distinct:
  "distinct (map fieldName flds) \<Longrightarrow> fld \<in> set flds \<Longrightarrow>
   foldl (toggleField es) els flds (fieldName fld) =
     toggleLoop (fmlookup es (fieldName fld)) (map name (validators fld)) (els (fieldName fld))"
proof (induction flds arbitrary: els)
  case Nil
  then show ?case by simp
next
  case (Cons a flds)
  show ?case
  proof (cases "fld = a")
    case True
    then have "fieldName fld \<notin> fieldName ` set flds"
      using Cons.prems(1) by auto
    then show ?thesis
      using True by (simp add: foldl_toggleField_other) (simp add: toggleField_def)
  next
    case False
    then have in': "fld \<in> set flds" and ne: "fieldName a \<noteq> fieldName fld"
      using Cons.prems by auto
    have d: "distinct (map fieldName flds)"
      using Cons.prems(1) by simp
    show ?thesis
      using Cons.IH[OF d in'] ne by (simp add: toggleField_def)
  qed
qed

section \<open>Invariants of the error store\<close>











lemma fmdom_empty_eq: "fmdom m = {||} \<longleftrightarrow> m = fmempty"
  by (metis fmdom_empty fmdom_empty_iff fmap_ext fmempty_lookup)






lemma removeEmpty_pruned_id:
  "pruned (errors s) \<Longrightarrow> errors (removeEmptyErrorFields s) = errors s"
  by (rule fmap_ext) (auto simp: lookup_removeEmpty pruned_def fmdom_empty_eq split: option.splits)

section \<open>The default registry on concrete inputs\<close>

lemma lookup_required:
  "fmlookup Validator_validators (str ''required'') =
     Some \<lparr>message = msg_required, validator = required_validator, validator_length = 1\<rparr>"
  by (simp add: Validator_validators_def str_def)

lemma lookup_minLen:
  "fmlookup Validator_validators (str ''minLen'') =
     Some \<lparr>message = msg_minLen, validator = minLen_validator, validator_length = 2\<rparr>"
  by (simp add: Validator_validators_def str_def)

lemma lookup_maxLen:
  "fmlookup Validator_validators (str ''maxLen'') =
     Some \<lparr>message = msg_maxLen, validator = maxLen_validator, validator_length = 2\<rparr>"
  by (simp add: Validator_validators_def str_def)






lemma lookup_confirm:
  "fmlookup Validator_validators (str ''confirm'') =
     Some \<lparr>message = msg_confirm, validator = confirm_validator, validator_length = 2\<rparr>"
  by (simp add: Validator_validators_def str_def)


lemmas number_defs = js_Number_def js_Number_arg_def arg_def trim_def isWhiteSpace_def
  nonDecimalLiteral_def strDecimalLiteral_def unsignedDecimal_def exponentValue_def
  digit_of_def scale10_def jsnum_ge_def isNaN_def str_def

lemma ex_number:
  "js_Number (str ''4'') = Fin 4" "js_Number (str ''5'') = Fin 5" "js_Number (str ''10'') = Fin 10"
  "js_Number (str ''32'') = Fin 32" "js_Number (str ''15'') = Fin 15" "js_Number (str ''8'') = Fin 8"
  "js_Number (str ''2'') = Fin 2"
  by (simp_all add: number_defs)


lemma ex_messages:
  "getErrorMessage msg_required [] = msg_required"
  "getErrorMessage msg_email [] = msg_email"
  "getErrorMessage msg_minLen [str ''4''] =
     [1052, 1080, 1085, 1080, 1084, 1091, 1084, 32, 52, 32, 1089, 1080, 1084, 1074, 1086, 1083,
      1086, 1074]"
  "getErrorMessage msg_maxLen [str ''5''] =
     [1052, 1072, 1082, 1089, 1080, 1084, 1091, 1084, 32, 53, 32, 1089, 1080, 1084, 1074, 1086,
      1083, 1086, 1074]"
  "getErrorMessage msg_min [str ''10''] = [1052, 1080, 1085, 1080, 1084, 1091, 1084, 32, 49, 48]"
  "getErrorMessage msg_confirm [str ''password''] = msg_confirm"
  by (simp_all add: getErrorMessage_def js_replace_def msg_minLen_def msg_maxLen_def msg_min_def
      msg_confirm_def str_def)


lemma ex_parse:
  "validatorsParser Validator_validators (str ''required|minLen:4|maxLen:5'') =
     Inr [\<lparr>name = str ''required'', parameters = []\<rparr>,
          \<lparr>name = str ''minLen'', parameters = [str ''4'']\<rparr>,
          \<lparr>name = str ''maxLen'', parameters = [str ''5'']\<rparr>]"
  by (simp add: validatorsParser_def parseSegment_def Validator_validators_def str_def trim_def
      isWhiteSpace_def validatorArgumentsParser_def getNumberOfValidatorArguments_def)

section \<open>Reset\<close>

lemma foldl_hide:
  "foldl (\<lambda>els fld. els(fieldName fld := (els (fieldName fld))\<lparr>visible := False\<rparr>)) els flds f =
     (if f \<in> fieldName ` set flds then (els f)\<lparr>visible := False\<rparr> else els f)"
  by (induction flds arbitrary: els) auto

text \<open>
  C9.  \<^verbatim>\<open>resetAllErrors()\<close> empties the error store, takes the visible marker from the
  error element of every declared field, enables the submit button, and leaves the value
  snapshot as it was, whatever the state before.
\<close>

theorem resetAllErrors_clears:
  "errors (resetAllErrors s) = fmempty \<and>
   \<not> isError (resetAllErrors s) \<and>
   (\<forall>fld \<in> set (fieldList s).
      \<not> visible (errorMessageElements (resetAllErrors s) (fieldName fld))) \<and>
   submitDisabled (resetAllErrors s) = False \<and>
   valueFields (resetAllErrors s) = valueFields s"
  by (simp add: resetAllErrors_def disableSubmitButton_def isError_def foldl_hide)

theorem resetAllErrors_clears_witness:
  "nameField \<in> set (fieldList erroneous) \<and>
   isError erroneous \<and> visible (errorMessageElements erroneous (str ''name'')) \<and>
   submitDisabled erroneous \<and>
   errors (resetAllErrors erroneous) = fmempty \<and>
   \<not> isError (resetAllErrors erroneous) \<and>
   \<not> visible (errorMessageElements (resetAllErrors erroneous) (str ''name'')) \<and>
   submitDisabled (resetAllErrors erroneous) = False \<and>
   valueFields (resetAllErrors erroneous) = fmap_of_list [(str ''name'', [])]"
proof -
  have a: "nameField \<in> set (fieldList erroneous)"
    by (simp add: erroneous_def)
  have b: "isError erroneous" "visible (errorMessageElements erroneous (str ''name''))"
    "submitDisabled erroneous" "valueFields erroneous = fmap_of_list [(str ''name'', [])]"
    by (simp_all add: erroneous_def isError_def)
  have c: "fieldName nameField = str ''name''"
    by (simp add: nameField_def)
  from resetAllErrors_clears[of erroneous] a b c show ?thesis
    by auto
qed

section \<open>The snapshot is recorded after the rules\<close>

lemma confirm_holds:
  "predicateHolds Validator_validators snap v \<lparr>name = str ''confirm'', parameters = [f]\<rparr> \<longleftrightarrow>
     fmlookup snap f = Some v"
  by (simp add: predicateHolds_def lookup_confirm confirm_validator_def arg_def)

text \<open>
  C6.  In every evaluation of a field all rules run against the value snapshot as it was
  before the evaluation: the loop over the rules leaves the snapshot alone, the error of each
  rule name is decided by its predicate on the old snapshot, and only then is the raw value
  recorded.  With the default registry, a rule \<^verbatim>\<open>confirm\<close> of a field against the field itself
  therefore compares the value with the one recorded before, not with itself.
\<close>

theorem snapshot_recorded_after_rules:
  assumes "eventHandler reg v fld s = Inr s'"
  shows "(\<exists>s1. validatorsLoop reg v (fieldName fld) (trim v = []) (isRequiredField fld)
                 (validators fld) s = Inr s1 \<and>
               valueFields s1 = valueFields s \<and>
               valueFields s' = fmupd (fieldName fld) v (valueFields s1)) \<and>
         (\<forall>n val. lastRule n (validators fld) = Some val \<longrightarrow>
            entry (errors s') (fieldName fld) n =
              (if rulePasses reg (valueFields s) v fld val then None
               else Some (ruleMessage reg val))) \<and>
         (reg = Validator_validators \<and>
          lastRule (str ''confirm'') (validators fld) =
            Some \<lparr>name = str ''confirm'', parameters = [fieldName fld]\<rparr> \<longrightarrow>
            (entry (errors s') (fieldName fld) (str ''confirm'') = None \<longleftrightarrow>
               fmlookup (valueFields s) (fieldName fld) = Some v \<or>
               (trim v = [] \<and> \<not> isRequiredField fld)))"
proof (intro conjI allI impI)
  from eventHandler_Inr[OF assms] obtain s1 where
    loop: "validatorsLoop reg v (fieldName fld) (trim v = []) (isRequiredField fld)
             (validators fld) s = Inr s1"
    and v: "valueFields s' = fmupd (fieldName fld) v (valueFields s)"
    by blast
  from validatorsLoop_frame[OF loop] have "valueFields s1 = valueFields s"
    by simp
  with loop v
  show "\<exists>s1. validatorsLoop reg v (fieldName fld) (trim v = []) (isRequiredField fld)
                 (validators fld) s = Inr s1 \<and>
               valueFields s1 = valueFields s \<and>
               valueFields s' = fmupd (fieldName fld) v (valueFields s1)"
    by auto
next
  fix n val
  assume "lastRule n (validators fld) = Some val"
  then show "entry (errors s') (fieldName fld) n =
              (if rulePasses reg (valueFields s) v fld val then None
               else Some (ruleMessage reg val))"
    by (simp add: eventHandler_entry[OF assms])
next
  assume a: "reg = Validator_validators \<and>
          lastRule (str ''confirm'') (validators fld) =
            Some \<lparr>name = str ''confirm'', parameters = [fieldName fld]\<rparr>"
  then show "entry (errors s') (fieldName fld) (str ''confirm'') = None \<longleftrightarrow>
               fmlookup (valueFields s) (fieldName fld) = Some v \<or>
               (trim v = [] \<and> \<not> isRequiredField fld)"
    using assms
    by (simp add: eventHandler_entry[OF assms] rulePasses_def confirm_holds)
qed

theorem snapshot_recorded_after_rules_witness:
  "entryAfter (eventHandler Validator_validators (str ''abc'') pinField (newInstance [pinField] False))
     (str ''pin'') (str ''confirm'') = Some (Some msg_confirm) \<and>
   valuesAfter (eventHandler Validator_validators (str ''abc'') pinField (newInstance [pinField] False))
     = Some (fmupd (str ''pin'') (str ''abc'') fmempty)"
proof -
  let ?s = "newInstance [pinField] False"
  have k: "knownRules Validator_validators pinField"
    by (simp add: knownRules_def pinField_def ref_def lookup_confirm)
  from eventHandler_total[OF k] obtain s' where
    ev: "eventHandler Validator_validators (str ''abc'') pinField ?s = Inr s'"
    by blast
  have l: "lastRule (str ''confirm'') (validators pinField) =
            Some \<lparr>name = str ''confirm'', parameters = [fieldName pinField]\<rparr>"
    by (simp add: pinField_def ref_def)
  have nr: "\<not> isRequiredField pinField"
    by (simp add: isRequiredField_def pinField_def ref_def str_def)
  have old: "fmlookup (valueFields ?s) (fieldName pinField) = None"
    by (simp add: newInstance_def)
  have t: "trim (str ''abc'') \<noteq> []"
    by (simp add: trim_def isWhiteSpace_def str_def)
  have m: "ruleMessage Validator_validators \<lparr>name = str ''confirm'', parameters = [fieldName pinField]\<rparr>
             = msg_confirm"
    by (simp add: ruleMessage_def lookup_confirm pinField_def)
      (simp add: getErrorMessage_def js_replace_def msg_confirm_def str_def)
  note T = snapshot_recorded_after_rules[OF ev]
  from T[THEN conjunct2, THEN conjunct1, rule_format, OF l]
  have e: "entry (errors s') (fieldName pinField) (str ''confirm'') =
              (if rulePasses Validator_validators (valueFields ?s) (str ''abc'') pinField
                    \<lparr>name = str ''confirm'', parameters = [fieldName pinField]\<rparr>
               then None
               else Some (ruleMessage Validator_validators
                      \<lparr>name = str ''confirm'', parameters = [fieldName pinField]\<rparr>))" .
  have f: "fieldName pinField = str ''pin''"
    by (simp add: pinField_def)
  from T[THEN conjunct1]
  have w': "valueFields s' = fmupd (str ''pin'') (str ''abc'') fmempty"
    by (elim exE conjE) (simp add: newInstance_def f)
  have np: "\<not> rulePasses Validator_validators (valueFields ?s) (str ''abc'') pinField
                    \<lparr>name = str ''confirm'', parameters = [fieldName pinField]\<rparr>"
    using nr old t by (simp add: rulePasses_def confirm_holds)
  have e': "entry (errors s') (str ''pin'') (str ''confirm'') = Some msg_confirm"
    using e np m f by simp
  show ?thesis
    using e' w' by (simp add: ev entryAfter_def valuesAfter_def)
qed

section \<open>Rules that pass and the empty value\<close>


lemma entry_lookup:
  "fmlookup es f = Some inner \<Longrightarrow> entry es f n = fmlookup inner n"
  by (simp add: entry_def)

lemma entry_Some_key:
  "entry es f n = Some m \<Longrightarrow> \<exists>inner. fmlookup es f = Some inner \<and> fmlookup inner n = Some m"
  by (auto simp: entry_def split: option.splits)




lemma shown_message:
  assumes ev: "eventHandler reg v fld0 s = Inr s'"
    and d: "distinct (map fieldName (fieldList s))" and m: "fld \<in> set (fieldList s)"
    and k: "fmlookup (errors s') (fieldName fld) = Some inner"
    and f: "firstError inner (map name (validators fld)) = Some r"
    and l: "fmlookup inner r = Some msg"
  shows "errorMessageElements s' (fieldName fld) = \<lparr>visible = True, textContent = msg\<rparr>"
proof -
  have "errorMessageElements s' (fieldName fld) =
      toggleLoop (fmlookup (errors s') (fieldName fld)) (map name (validators fld))
        (errorMessageElements s (fieldName fld))"
    unfolding eventHandler_sel(3)[OF ev] by (rule foldl_toggleField_distinct[OF d m])
  also have "\<dots> = \<lparr>visible = True, textContent = msg\<rparr>"
    unfolding k by (rule toggleLoop_first_error[OF f l])
  finally show ?thesis .
qed

lemma hidden_message:
  assumes ev: "eventHandler reg v fld0 s = Inr s'"
    and d: "distinct (map fieldName (fieldList s))" and m: "fld \<in> set (fieldList s)"
    and k: "fmlookup (errors s') (fieldName fld) = None"
    and ne: "validators fld \<noteq> []"
  shows "\<not> visible (errorMessageElements s' (fieldName fld))"
proof -
  have "errorMessageElements s' (fieldName fld) =
      toggleLoop (fmlookup (errors s') (fieldName fld)) (map name (validators fld))
        (errorMessageElements s (fieldName fld))"
    unfolding eventHandler_sel(3)[OF ev] by (rule foldl_toggleField_distinct[OF d m])
  then show ?thesis
    using ne by (simp add: k toggleLoop_None)
qed





lemma builtin_names_distinct:
  "str ''required'' \<noteq> str ''email''" "str ''email'' \<noteq> str ''required''"
  "str ''required'' \<noteq> str ''minLen''" "str ''minLen'' \<noteq> str ''required''"
  "str ''required'' \<noteq> str ''maxLen''" "str ''maxLen'' \<noteq> str ''required''"
  "str ''minLen'' \<noteq> str ''maxLen''" "str ''maxLen'' \<noteq> str ''minLen''"
  "str ''required'' \<noteq> str ''confirm''" "str ''confirm'' \<noteq> str ''required''"
  "str ''required'' \<noteq> str ''number''" "str ''number'' \<noteq> str ''required''"
  "str ''required'' \<noteq> str ''min''" "str ''min'' \<noteq> str ''required''"
  "str ''required'' \<noteq> str ''max''" "str ''max'' \<noteq> str ''required''"
  "str ''number'' \<noteq> str ''min''" "str ''min'' \<noteq> str ''number''"
  "str ''number'' \<noteq> str ''max''" "str ''max'' \<noteq> str ''number''"
  "str ''min'' \<noteq> str ''max''" "str ''max'' \<noteq> str ''min''"
  by (simp_all add: str_def)








section \<open>The message shown follows the order of the rules\<close>

lemma predicateHolds_lookup:
  "fmlookup reg (name val) = fmlookup reg' (name val) \<Longrightarrow>
   predicateHolds reg snap v val = predicateHolds reg' snap v val"
  by (simp add: predicateHolds_def)

lemma minLen_holds:
  "predicateHolds Validator_validators snap v \<lparr>name = str ''minLen'', parameters = [p]\<rparr> \<longleftrightarrow>
     jsnum_le (js_Number p) (Fin (of_nat (length (trim v))))"
  by (simp add: predicateHolds_def lookup_minLen minLen_validator_def arg_def js_Number_arg_def
      jsnum_ge_def)

lemma maxLen_holds:
  "predicateHolds Validator_validators snap v \<lparr>name = str ''maxLen'', parameters = [p]\<rparr> \<longleftrightarrow>
     jsnum_le (Fin (of_nat (length (trim v)))) (js_Number p)"
  by (simp add: predicateHolds_def lookup_maxLen maxLen_validator_def arg_def js_Number_arg_def)

text \<open>No value fails both \<^verbatim>\<open>minLen:4\<close> and \<^verbatim>\<open>maxLen:5\<close>.\<close>

lemma minLen4_or_maxLen5_holds:
  "predicateHolds Validator_validators snap v (ref ''minLen'' [''4'']) \<or>
   predicateHolds Validator_validators snap v (ref ''maxLen'' [''5''])"
proof -
  have "4 \<le> length (trim v) \<or> length (trim v) \<le> 5"
    by arith
  then show ?thesis
    by (auto simp: ref_def minLen_holds maxLen_holds ex_number)
qed

lemma toggle_element:
  assumes d: "distinct (map fieldName (fieldList s))" and m: "fld \<in> set (fieldList s)"
  shows "errorMessageElements (toggleErrorMessages s) (fieldName fld) =
      toggleLoop (fmlookup (errors s) (fieldName fld)) (map name (validators fld))
        (errorMessageElements s (fieldName fld))"
  unfolding toggle_sel by (rule foldl_toggleField_distinct[OF d m])

text \<open>
  C2, amended.  For a field with an object in the error store, the message shown is the one
  of the first rule, in the order of the validators of the field, whose entry is a
  non-empty message; the store itself is not changed, so the later errors stay in it.  When no
  message in the store is empty this is the first rule with an entry.  In particular, with
  entries for both \<^verbatim>\<open>minLen\<close> and \<^verbatim>\<open>maxLen\<close>, the order \<^verbatim>\<open>minLen, maxLen\<close> shows the
  message of \<^verbatim>\<open>minLen\<close> and the order \<^verbatim>\<open>maxLen, minLen\<close> the one of \<^verbatim>\<open>maxLen\<close>.
\<close>

theorem first_message_in_order_is_shown:
  assumes d: "distinct (map fieldName (fieldList s))" and m: "fld \<in> set (fieldList s)"
    and k: "fmlookup (errors s) (fieldName fld) = Some inner"
  shows "(\<forall>r msg. firstError inner (map name (validators fld)) = Some r \<and>
            fmlookup inner r = Some msg \<longrightarrow>
            errorMessageElements (toggleErrorMessages s) (fieldName fld) =
              \<lparr>visible = True, textContent = msg\<rparr>) \<and>
         ((\<forall>n msg. fmlookup inner n = Some msg \<longrightarrow> msg \<noteq> []) \<longrightarrow>
            firstError inner (map name (validators fld)) =
            firstEntry inner (map name (validators fld))) \<and>
         errors (toggleErrorMessages s) = errors s \<and>
         (\<forall>m1. map name (validators fld) = [str ''minLen'', str ''maxLen''] \<and>
            fmlookup inner (str ''minLen'') = Some m1 \<and> m1 \<noteq> [] \<longrightarrow>
            errorMessageElements (toggleErrorMessages s) (fieldName fld) =
              \<lparr>visible = True, textContent = m1\<rparr>) \<and>
         (\<forall>m2. map name (validators fld) = [str ''maxLen'', str ''minLen''] \<and>
            fmlookup inner (str ''maxLen'') = Some m2 \<and> m2 \<noteq> [] \<longrightarrow>
            errorMessageElements (toggleErrorMessages s) (fieldName fld) =
              \<lparr>visible = True, textContent = m2\<rparr>)"
proof (intro conjI allI impI)
  fix r msg
  assume a: "firstError inner (map name (validators fld)) = Some r \<and> fmlookup inner r = Some msg"
  show "errorMessageElements (toggleErrorMessages s) (fieldName fld) =
              \<lparr>visible = True, textContent = msg\<rparr>"
    unfolding toggle_element[OF d m] k
    by (rule toggleLoop_first_error[OF conjunct1[OF a] conjunct2[OF a]])
next
  assume "\<forall>n msg. fmlookup inner n = Some msg \<longrightarrow> msg \<noteq> []"
  then show "firstError inner (map name (validators fld)) =
            firstEntry inner (map name (validators fld))"
    by (intro firstError_eq_firstEntry) blast
next
  show "errors (toggleErrorMessages s) = errors s"
    by (rule toggle_sel(1))
next
  fix m1
  assume a: "map name (validators fld) = [str ''minLen'', str ''maxLen''] \<and>
            fmlookup inner (str ''minLen'') = Some m1 \<and> m1 \<noteq> []"
  then have f: "firstError inner (map name (validators fld)) = Some (str ''minLen'')"
    by (simp add: firstError_def hasMessage_def)
  show "errorMessageElements (toggleErrorMessages s) (fieldName fld) =
              \<lparr>visible = True, textContent = m1\<rparr>"
    unfolding toggle_element[OF d m] k
    using a by (intro toggleLoop_first_error[OF f]) simp
next
  fix m2
  assume a: "map name (validators fld) = [str ''maxLen'', str ''minLen''] \<and>
            fmlookup inner (str ''maxLen'') = Some m2 \<and> m2 \<noteq> []"
  then have f: "firstError inner (map name (validators fld)) = Some (str ''maxLen'')"
    by (simp add: firstError_def hasMessage_def)
  show "errorMessageElements (toggleErrorMessages s) (fieldName fld) =
              \<lparr>visible = True, textContent = m2\<rparr>"
    unfolding toggle_element[OF d m] k
    using a by (intro toggleLoop_first_error[OF f]) simp
qed

theorem first_message_in_order_is_shown_witness:
  "errorMessageElements (toggleErrorMessages bothErrors) (str ''first'') =
     \<lparr>visible = True, textContent = str ''too short''\<rparr> \<and>
   errorMessageElements (toggleErrorMessages bothErrors) (str ''second'') =
     \<lparr>visible = True, textContent = str ''too long''\<rparr> \<and>
   errors (toggleErrorMessages bothErrors) = errors bothErrors"
proof -
  let ?inner = "fmap_of_list [(str ''minLen'', str ''too short''),
                              (str ''maxLen'', str ''too long'')]"
  have d: "distinct (map fieldName (fieldList bothErrors))"
    by (simp add: bothErrors_def newInstance_def minMaxField_def maxMinField_def str_def)
  have m1: "minMaxField \<in> set (fieldList bothErrors)"
    and m2: "maxMinField \<in> set (fieldList bothErrors)"
    by (simp_all add: bothErrors_def newInstance_def)
  have k1: "fmlookup (errors bothErrors) (fieldName minMaxField) = Some ?inner"
    by (simp add: bothErrors_def newInstance_def minMaxField_def)
  have k2: "fmlookup (errors bothErrors) (fieldName maxMinField) = Some ?inner"
    by (simp add: bothErrors_def newInstance_def maxMinField_def str_def)
  have o1: "map name (validators minMaxField) = [str ''minLen'', str ''maxLen''] \<and>
      fmlookup ?inner (str ''minLen'') = Some (str ''too short'') \<and> str ''too short'' \<noteq> []"
    by (simp add: minMaxField_def ref_def) (simp add: str_def)
  have o2: "map name (validators maxMinField) = [str ''maxLen'', str ''minLen''] \<and>
      fmlookup ?inner (str ''maxLen'') = Some (str ''too long'') \<and> str ''too long'' \<noteq> []"
    by (simp add: maxMinField_def ref_def) (simp add: str_def)
  note T1 = first_message_in_order_is_shown[OF d m1 k1]
  note T2 = first_message_in_order_is_shown[OF d m2 k2]
  from T1[THEN conjunct2, THEN conjunct2, THEN conjunct2, THEN conjunct1, rule_format, OF o1]
  have a: "errorMessageElements (toggleErrorMessages bothErrors) (str ''first'') =
     \<lparr>visible = True, textContent = str ''too short''\<rparr>"
    by (simp add: minMaxField_def)
  from T2[THEN conjunct2, THEN conjunct2, THEN conjunct2, THEN conjunct2, rule_format, OF o2]
  have b: "errorMessageElements (toggleErrorMessages bothErrors) (str ''second'') =
     \<lparr>visible = True, textContent = str ''too long''\<rparr>"
    by (simp add: maxMinField_def)
  from T1[THEN conjunct2, THEN conjunct2, THEN conjunct1]
  have c: "errors (toggleErrorMessages bothErrors) = errors bothErrors" .
  show ?thesis
    using a b c by simp
qed

lemma silent_lookup:
  "fmlookup silentRequired (str ''required'') =
     Some \<lparr>message = [], validator = required_validator, validator_length = 1\<rparr>"
  "fmlookup silentRequired (str ''minLen'') = fmlookup Validator_validators (str ''minLen'')"
  "fmlookup silentRequired (str ''maxLen'') = fmlookup Validator_validators (str ''maxLen'')"
  by (simp_all add: silentRequired_def builtin_names_distinct)

lemma nameField_last:
  "lastRule (str ''required'') (validators nameField) = Some (ref ''required'' [])"
  "lastRule (str ''minLen'') (validators nameField) = Some (ref ''minLen'' [''4''])"
  "lastRule (str ''maxLen'') (validators nameField) = Some (ref ''maxLen'' [''5''])"
  by (simp_all add: nameField_def ref_def builtin_names_distinct)

lemma nameField_required: "isRequiredField nameField"
  by (simp add: isRequiredField_def nameField_def ref_def)

lemma minLen4_message_nonempty: "getErrorMessage msg_minLen [str ''4''] \<noteq> []"
  by (simp add: ex_messages)

text \<open>
  C2, as the claim states it, fails.  After \<^verbatim>\<open>Validator.setMessage("required", "")\<close> a
  field \<^verbatim>\<open>required|minLen:4|maxLen:5\<close> with an empty value has entries for \<^verbatim>\<open>required\<close> and
  \<^verbatim>\<open>minLen\<close>; the first rule with an entry is \<^verbatim>\<open>required\<close>, and the message shown is the
  one of \<^verbatim>\<open>minLen\<close>.
\<close>

theorem empty_message_is_skipped:
  "setMessage Validator_validators (str ''required'') [] = Inr silentRequired \<and>
   \<not> showsFirstEntry (eventHandler silentRequired [] nameField (newInstance [nameField] False))
       nameField \<and>
   entryAfter (eventHandler silentRequired [] nameField (newInstance [nameField] False))
       (str ''name'') (str ''required'') = Some (Some []) \<and>
   elementAfter (eventHandler silentRequired [] nameField (newInstance [nameField] False))
       (str ''name'') =
     Some \<lparr>visible = True, textContent = getErrorMessage msg_minLen [str ''4'']\<rparr>"
proof -
  let ?s = "newInstance [nameField] False"
  let ?msg = "getErrorMessage msg_minLen [str ''4'']"
  have sm: "setMessage Validator_validators (str ''required'') [] = Inr silentRequired"
    by (simp add: setMessage_def lookup_required silentRequired_def)
  have k: "knownRules silentRequired nameField"
    by (simp add: knownRules_def nameField_def ref_def silent_lookup lookup_minLen lookup_maxLen)
  from eventHandler_total[OF k] obtain s' where
    ev: "eventHandler silentRequired [] nameField ?s = Inr s'"
    by blast
  have f: "fieldName nameField = str ''name''"
    by (simp add: nameField_def)
  have p1: "\<not> rulePasses silentRequired (valueFields ?s) [] nameField (ref ''required'' [])"
    by (simp add: rulePasses_def nameField_required predicateHolds_def ref_def silent_lookup
        required_validator_def trim_def)
  have m1: "ruleMessage silentRequired (ref ''required'' []) = []"
    by (simp add: ruleMessage_def ref_def silent_lookup getErrorMessage_def)
  have p2: "\<not> rulePasses silentRequired (valueFields ?s) [] nameField (ref ''minLen'' [''4''])"
    by (simp add: rulePasses_def nameField_required predicateHolds_def ref_def silent_lookup
        lookup_minLen minLen_validator_def arg_def js_Number_arg_def ex_number jsnum_ge_def
        trim_def)
  have m2: "ruleMessage silentRequired (ref ''minLen'' [''4'']) = ?msg"
    by (simp add: ruleMessage_def ref_def silent_lookup lookup_minLen)
  have e1: "entry (errors s') (str ''name'') (str ''required'') = Some []"
    using p1 m1 by (simp add: eventHandler_entry[OF ev] f nameField_last)
  have e2: "entry (errors s') (str ''name'') (str ''minLen'') = Some ?msg"
    using p2 m2 by (simp add: eventHandler_entry[OF ev] f nameField_last)
  from entry_Some_key[OF e1] obtain inner where
    i: "fmlookup (errors s') (str ''name'') = Some inner"
    and i1: "fmlookup inner (str ''required'') = Some []"
    by blast
  have i2: "fmlookup inner (str ''minLen'') = Some ?msg"
    using e2 i by (simp add: entry_def)
  have fe: "firstEntry inner (map name (validators nameField)) = Some (str ''required'')"
    by (simp add: firstEntry_def hasEntry_def nameField_def ref_def i1)
  have ff: "firstError inner (map name (validators nameField)) = Some (str ''minLen'')"
    by (simp add: firstError_def hasMessage_def nameField_def ref_def i1 i2
        minLen4_message_nonempty)
  have d: "distinct (map fieldName (fieldList ?s))" and m: "nameField \<in> set (fieldList ?s)"
    by (simp_all add: newInstance_def)
  have el: "errorMessageElements s' (str ''name'') = \<lparr>visible = True, textContent = ?msg\<rparr>"
    using shown_message[OF ev d m i[folded f] ff i2] by (simp add: f)
  have ns: "\<not> showsFirstEntry (Inr s') nameField"
    using minLen4_message_nonempty
    by (simp add: showsFirstEntry_def f i fe el i1)
  show ?thesis
    using sm ns e1 el by (simp add: ev entryAfter_def elementAfter_def)
qed

section \<open>Keys of the error store\<close>













section \<open>Submission\<close>





lemma submitLoop_reachable:
  "submitLoop reg form flds s = Inr s' \<Longrightarrow> reachable s \<Longrightarrow> set flds \<subseteq> set (fieldList s) \<Longrightarrow>
   reachable s'"
proof (induction flds arbitrary: s)
  case Nil
  then show ?case by simp
next
  case (Cons a flds)
  from Cons.prems(1) obtain s1 where
    e: "eventHandler reg (form (fieldName a)) a s = Inr s1"
    and l: "submitLoop reg form flds s1 = Inr s'"
    by (auto split: sum.splits)
  have a: "a \<in> set (fieldList s)"
    using Cons.prems(3) by simp
  have r1: "reachable s1"
    by (rule reachable_eval[OF Cons.prems(2) a e])
  have "set flds \<subseteq> set (fieldList s1)"
    using Cons.prems(3) eventHandler_sel(2)[OF e] by simp
  from Cons.IH[OF l r1 this] show ?case .
qed
























section \<open>Synchronized re-evaluation\<close>


















section \<open>The placeholder of an untouched dependent field\<close>




section \<open>Unknown rule names\<close>

lemma split_on_nonempty: "split_on c xs \<noteq> []"
  by (induction xs) (auto split: list.splits)

lemma parseSegment_unknown:
  "fmlookup reg (segmentName seg) = None \<Longrightarrow>
   parseSegment reg seg = Inl (ValidatorNotFound (segmentName seg))"
  by (cases "split_on 58 seg") (simp_all add: parseSegment_def segmentName_def split_on_nonempty)

lemma parseSegment_known:
  "fmlookup reg (segmentName seg) \<noteq> None \<Longrightarrow> parseSegment reg seg = Inl e \<Longrightarrow>
   \<exists>argLen n. e = ArgumentCount (segmentName seg) argLen n"
  by (cases "split_on 58 seg")
    (auto simp: parseSegment_def segmentName_def split_on_nonempty Let_def
      getNumberOfValidatorArguments_def split: if_splits)

lemma map_throw_first_error:
  assumes "\<exists>x \<in> set xs. \<exists>e. f x = Inl e"
  shows "\<exists>before x after e. xs = before @ x # after \<and>
           (\<forall>p \<in> set before. \<exists>r. f p = Inr r) \<and> f x = Inl e \<and> map_throw f xs = Inl e"
  using assms
proof (induction xs)
  case Nil
  then show ?case by simp
next
  case (Cons a xs)
  show ?case
  proof (cases "f a")
    case (Inl e)
    then have "a # xs = [] @ a # xs \<and> (\<forall>p \<in> set []. \<exists>r. f p = Inr r) \<and> f a = Inl e \<and>
        map_throw f (a # xs) = Inl e"
      by simp
    then show ?thesis by blast
  next
    case (Inr r)
    with Cons.prems have "\<exists>x \<in> set xs. \<exists>e. f x = Inl e"
      by auto
    from Cons.IH[OF this] obtain before x after e where
      h: "xs = before @ x # after" "\<forall>p \<in> set before. \<exists>r. f p = Inr r" "f x = Inl e"
        "map_throw f xs = Inl e"
      by blast
    have "a # xs = (a # before) @ x # after \<and> (\<forall>p \<in> set (a # before). \<exists>r. f p = Inr r) \<and>
        f x = Inl e \<and> map_throw f (a # xs) = Inl e"
      using h Inr by simp
    then show ?thesis by blast
  qed
qed

lemma split_on_leading: "split_on c (c # xs) = [] # split_on c xs"
  by simp

lemma split_on_trailing: "split_on c (xs @ [c]) = split_on c xs @ [[]]"
proof (induction xs)
  case Nil
  then show ?case by simp
next
  case (Cons a xs)
  then show ?case
    using split_on_nonempty[of c xs] by (cases "split_on c xs") auto
qed

lemma parseSegment_empty:
  "fmlookup reg [] = None \<Longrightarrow> parseSegment reg [] = Inl (ValidatorNotFound [])"
  using parseSegment_unknown[of reg "[]"] by (simp add: segmentName_def)

text \<open>
  C7, amended.  A rule string with a segment whose rule name is not in the registry does
  not parse.  The error raised is the one of the first segment, in order, that is at fault:
  the unknown-rule error of that segment when its name is not in the registry, an
  argument-count error otherwise.  An empty segment has the empty rule name; a bar at the
  start or at the end of the trimmed string makes one, and with no rule of the empty name
  in the registry the string does not parse.
\<close>

theorem unknown_rule_fails_parsing:
  assumes u: "\<exists>seg \<in> set (segments vs). fmlookup reg (segmentName seg) = None"
  shows "\<exists>before seg after e.
           segments vs = before @ seg # after \<and>
           (\<forall>p \<in> set before. \<exists>r. parseSegment reg p = Inr r) \<and>
           parseSegment reg seg = Inl e \<and>
           validatorsParser reg vs = Inl e \<and>
           (fmlookup reg (segmentName seg) = None \<longrightarrow> e = ValidatorNotFound (segmentName seg)) \<and>
           (fmlookup reg (segmentName seg) \<noteq> None \<longrightarrow>
              (\<exists>argLen n. e = ArgumentCount (segmentName seg) argLen n)) \<and>
           segmentName [] = [] \<and>
           (fmlookup reg [] = None \<longrightarrow> parseSegment reg [] = Inl (ValidatorNotFound [])) \<and>
           (\<forall>rest. trim vs = 124 # rest \<or> trim vs = rest @ [124] \<longrightarrow> [] \<in> set (segments vs))"
proof -
  from u have "\<exists>seg \<in> set (segments vs). \<exists>e. parseSegment reg seg = Inl e"
    using parseSegment_unknown by blast
  from map_throw_first_error[OF this] obtain before seg after e where
    h: "segments vs = before @ seg # after"
      "\<forall>p \<in> set before. \<exists>r. parseSegment reg p = Inr r"
      "parseSegment reg seg = Inl e"
      "map_throw (parseSegment reg) (segments vs) = Inl e"
    by blast
  have v: "validatorsParser reg vs = Inl e"
    using h(4) by (simp add: validatorsParser_def segments_def)
  have a: "e = ValidatorNotFound (segmentName seg)" if "fmlookup reg (segmentName seg) = None"
    using parseSegment_unknown[OF that] h(3) by simp
  have b: "\<exists>argLen n. e = ArgumentCount (segmentName seg) argLen n"
    if "fmlookup reg (segmentName seg) \<noteq> None"
    by (rule parseSegment_known[OF that h(3)])
  have c: "segmentName [] = []"
    by (simp add: segmentName_def)
  have d: "[] \<in> set (segments vs)" if "trim vs = 124 # rest \<or> trim vs = rest @ [124]" for rest
    using that by (auto simp: segments_def split_on_trailing)
  show ?thesis
    using h(1,2,3) v a b c d parseSegment_empty[of reg]
    by (intro exI[of _ before] exI[of _ seg] exI[of _ after] exI[of _ e]) simp
qed

lemma ex_segments:
  "segments (str ''required|'') = [str ''required'', []]"
  "segments (str ''minLen|bogus'') = [str ''minLen'', str ''bogus'']"
  by (simp_all add: segments_def trim_def isWhiteSpace_def str_def)

lemma ex_segment_names:
  "segmentName [] = []" "segmentName (str ''bogus'') = str ''bogus''"
  "segmentName (str ''minLen'') = str ''minLen''"
  by (simp_all add: segmentName_def str_def)

lemma ex_unknown:
  "fmlookup Validator_validators [] = None"
  "fmlookup Validator_validators (str ''bogus'') = None"
  by (simp_all add: Validator_validators_def str_def)

lemma ex_parse_required:
  "parseSegment Validator_validators (str ''required'') =
     Inr \<lparr>name = str ''required'', parameters = []\<rparr>"
  by (simp add: parseSegment_def Validator_validators_def str_def validatorArgumentsParser_def
      getNumberOfValidatorArguments_def)

theorem unknown_rule_fails_parsing_witness:
  "[] \<in> set (segments (str ''required|'')) \<and>
   fmlookup Validator_validators (segmentName []) = None \<and>
   validatorsParser Validator_validators (str ''required|'') = Inl (ValidatorNotFound [])"
proof -
  have m: "[] \<in> set (segments (str ''required|''))"
    by (simp add: ex_segments)
  have n: "fmlookup Validator_validators (segmentName []) = None"
    by (simp add: ex_segment_names ex_unknown)
  from m n have u: "\<exists>seg \<in> set (segments (str ''required|'')).
      fmlookup Validator_validators (segmentName seg) = None"
    by blast
  from unknown_rule_fails_parsing[OF u] obtain before seg after e where
    h: "segments (str ''required|'') = before @ seg # after"
      "parseSegment Validator_validators seg = Inl e"
      "validatorsParser Validator_validators (str ''required|'') = Inl e"
      "fmlookup Validator_validators (segmentName seg) = None \<longrightarrow>
         e = ValidatorNotFound (segmentName seg)"
    by (elim exE conjE)
  have "seg \<in> set (segments (str ''required|''))"
    unfolding h(1) by simp
  then have "seg = str ''required'' \<or> seg = []"
    by (simp add: ex_segments)
  moreover have "seg \<noteq> str ''required''"
    using h(2) ex_parse_required by auto
  ultimately have "seg = []"
    by simp
  with h(4) n have "e = ValidatorNotFound []"
    by (simp add: ex_segment_names)
  with h(3) m n show ?thesis
    by simp
qed

text \<open>
  C7, as the claim states it, fails: \<^verbatim>\<open>"minLen|bogus"\<close> has the segment \<^verbatim>\<open>bogus\<close>, whose name
  is not in the registry, and parsing does not fail with the unknown-rule error but with the
  argument-count error of the segment before it.
\<close>

theorem earlier_arity_error_comes_first:
  "segments (str ''minLen|bogus'') = [str ''minLen'', str ''bogus''] \<and>
   segmentName (str ''bogus'') = str ''bogus'' \<and>
   fmlookup Validator_validators (str ''bogus'') = None \<and>
   validatorsParser Validator_validators (str ''minLen|bogus'') =
     Inl (ArgumentCount (str ''minLen'') 1 0)"
proof -
  have "parseSegment Validator_validators (str ''minLen'') =
      Inl (ArgumentCount (str ''minLen'') 1 0)"
    by (simp add: parseSegment_def Validator_validators_def str_def validatorArgumentsParser_def
        getNumberOfValidatorArguments_def)
  then have "validatorsParser Validator_validators (str ''minLen|bogus'') =
     Inl (ArgumentCount (str ''minLen'') 1 0)"
    using ex_segments(2) by (simp add: validatorsParser_def segments_def)
  then show ?thesis
    by (simp add: ex_segments ex_segment_names ex_unknown)
qed

section \<open>The arity check\<close>

lemma split_on_none: "c \<notin> set xs \<Longrightarrow> split_on c xs = [xs]"
  by (induction xs) auto

lemma split_on_first: "c \<notin> set xs \<Longrightarrow> split_on c (xs @ c # ys) = xs # split_on c ys"
  by (induction xs) auto

lemma one_colon_cases:
  assumes "length (filter (\<lambda>c. c = 58) seg) \<le> 1"
  shows "58 \<notin> set seg \<or> (\<exists>nm ps. seg = nm @ 58 # ps \<and> 58 \<notin> set nm \<and> 58 \<notin> set ps)"
proof (cases "58 \<in> set seg")
  case False
  then show ?thesis by simp
next
  case True
  then obtain nm ps where s: "seg = nm @ 58 # ps" "58 \<notin> set nm"
    by (meson split_list_first)
  have "58 \<notin> set ps"
  proof
    assume "58 \<in> set ps"
    then have "filter (\<lambda>c. c = 58) ps \<noteq> []"
      by (simp add: filter_empty_conv)
    then have "1 \<le> length (filter (\<lambda>c. c = 58) ps)"
      by (cases "filter (\<lambda>c. c = 58) ps") simp_all
    then show False
      using assms by (simp add: s)
  qed
  with s show ?thesis by blast
qed

text \<open>
  On a segment with at most one colon the parser takes the parameters the segment supplies
  and compares their number with the arity of the rule.
\<close>

lemma one_colon_segment_checks_arity:
  assumes c: "length (filter (\<lambda>c. c = 58) seg) \<le> 1"
    and k: "fmlookup reg (segmentName seg) = Some rd"
  shows "parseSegment reg seg =
     (if int (validator_length rd) - 1 = int (length (specParameters seg))
      then Inr \<lparr>name = segmentName seg, parameters = specParameters seg\<rparr>
      else Inl (ArgumentCount (segmentName seg) (int (validator_length rd) - 1)
                  (length (specParameters seg))))"
proof -
  from one_colon_cases[OF c] consider
    (none) "58 \<notin> set seg"
    | (one) nm ps where "seg = nm @ 58 # ps" "58 \<notin> set nm" "58 \<notin> set ps"
    by blast
  then show ?thesis
  proof cases
    case none
    have sp: "split_on 58 seg = [seg]"
      by (rule split_on_none[OF none])
    have n: "segmentName seg = seg"
      by (simp add: segmentName_def sp)
    have d: "dropWhile (\<lambda>c. c \<noteq> 58) seg = []"
      using none by (simp add: dropWhile_eq_Nil_conv) metis
    have p: "specParameters seg = []"
      by (simp add: specParameters_def d)
    show ?thesis
      using k by (simp add: parseSegment_def sp n p validatorArgumentsParser_def
          getNumberOfValidatorArguments_def)
  next
    case one
    have sp: "split_on 58 seg = [nm, ps]"
      by (simp add: one(1) split_on_first[OF one(2)] split_on_none[OF one(3)])
    have n: "segmentName seg = nm"
      by (simp add: segmentName_def sp)
    have d: "dropWhile (\<lambda>c. c \<noteq> 58) seg = 58 # ps"
      unfolding one(1) using one(2) by (subst dropWhile_append2) auto
    have p: "specParameters seg = split_on 44 ps"
      by (simp add: specParameters_def d)
    show ?thesis
      using k by (simp add: parseSegment_def sp n p validatorArgumentsParser_def
          getNumberOfValidatorArguments_def)
  qed
qed

text \<open>
  C8 at \<^verbatim>\<open>"minLen:4:9,9"\<close>.  Split at its first colon the segment supplies the two parameters
  \<^verbatim>\<open>4:9\<close> and \<^verbatim>\<open>9\<close>, and \<^verbatim>\<open>minLen\<close> takes one.  The parser splits at every colon and
  keeps the first two pieces: it drops \<^verbatim>\<open>9,9\<close>, finds one parameter and accepts the segment.
\<close>

theorem second_colon_drops_parameters:
  "specParameters (str ''minLen:4:9,9'') = [str ''4:9'', str ''9''] \<and>
   getNumberOfValidatorArguments Validator_validators (str ''minLen'') = Inr 1 \<and>
   validatorsParser Validator_validators (str ''minLen:4:9,9'') =
     Inr [\<lparr>name = str ''minLen'', parameters = [str ''4'']\<rparr>]"
  by (simp add: specParameters_def validatorsParser_def parseSegment_def Validator_validators_def
      str_def trim_def isWhiteSpace_def validatorArgumentsParser_def
      getNumberOfValidatorArguments_def)

section \<open>What the constructor establishes\<close>

lemma map_throw_Inr:
  "map_throw f xs = Inr ys \<Longrightarrow> list_all2 (\<lambda>x y. f x = Inr y) xs ys"
  by (induction xs arbitrary: ys) (auto split: sum.splits)

lemma parseSegment_Inr_known:
  "parseSegment reg seg = Inr r \<Longrightarrow> fmlookup reg (name r) \<noteq> None"
  by (cases "split_on 58 seg")
    (auto simp: parseSegment_def Let_def split: if_splits sum.splits)

lemma map_throw_all:
  "map_throw f xs = Inr ys \<Longrightarrow> (\<And>x y. f x = Inr y \<Longrightarrow> P y) \<Longrightarrow> list_all P ys"
  by (induction xs arbitrary: ys) (auto split: sum.splits)

lemma validatorsParser_known:
  assumes "validatorsParser reg vs = Inr rs"
  shows "list_all (\<lambda>val. fmlookup reg (name val) \<noteq> None) rs"
  using assms unfolding validatorsParser_def
  by (rule map_throw_all) (rule parseSegment_Inr_known)

lemma parseField_Inr:
  assumes "parseField reg formHas names d = Inr fld"
  shows "fieldName fld = decl_name d" and "knownRules reg fld"
    and "syncCall fld = Some t \<Longrightarrow> t \<noteq> [] \<Longrightarrow> t \<in> set names"
proof -
  from assms obtain vs where
    v: "validatorsParser reg (valid d) = Inr vs"
    and f: "fld = \<lparr>fieldName = decl_name d, syncCall = decl_syncCall d, validators = vs\<rparr>"
    by (auto simp: parseField_def split: if_splits option.splits sum.splits)
  show "fieldName fld = decl_name d"
    by (simp add: f)
  show "knownRules reg fld"
    using validatorsParser_known[OF v] by (simp add: knownRules_def f)
  show "t \<in> set names" if "syncCall fld = Some t" "t \<noteq> []"
    using assms that
    by (auto simp: parseField_def f split: if_splits option.splits sum.splits)
qed

text \<open>
  What the constructor has checked when it returns: every rule of every field is in the
  registry, and a field named by a non-empty \<^verbatim>\<open>syncCall\<close> is found among the fields.
\<close>

lemma fieldsParser_establishes:
  assumes "fieldsParser reg formHas decls = Inr flds"
  shows "list_all (knownRules reg) flds"
    and "fld \<in> set flds \<Longrightarrow> syncCall fld = Some t \<Longrightarrow> t \<noteq> [] \<Longrightarrow>
         \<exists>dep. find (\<lambda>f. fieldName f = t) flds = Some dep"
proof -
  from assms have
    a: "list_all2 (\<lambda>d fld. parseField reg formHas (map decl_name decls) d = Inr fld) decls flds"
    unfolding fieldsParser_def by (rule map_throw_Inr)
  show "list_all (knownRules reg) flds"
    unfolding list_all_iff
  proof
    fix fld
    assume "fld \<in> set flds"
    then obtain i where i: "i < length flds" "flds ! i = fld"
      by (auto simp: in_set_conv_nth)
    with a have "parseField reg formHas (map decl_name decls) (decls ! i) = Inr fld"
      by (auto simp: list_all2_conv_all_nth)
    then show "knownRules reg fld"
      by (rule parseField_Inr(2))
  qed
  have names: "map fieldName flds = map decl_name decls"
  proof (rule nth_equalityI)
    show "length (map fieldName flds) = length (map decl_name decls)"
      using a by (simp add: list_all2_lengthD)
    fix i
    assume "i < length (map fieldName flds)"
    then have i: "i < length flds" by simp
    with a have "parseField reg formHas (map decl_name decls) (decls ! i) = Inr (flds ! i)"
      by (auto simp: list_all2_conv_all_nth)
    from parseField_Inr(1)[OF this] i a
    show "map fieldName flds ! i = map decl_name decls ! i"
      by (simp add: list_all2_lengthD)
  qed
  show "\<exists>dep. find (\<lambda>f. fieldName f = t) flds = Some dep"
    if "fld \<in> set flds" "syncCall fld = Some t" "t \<noteq> []"
  proof -
    from that(1) obtain i where i: "i < length flds" "flds ! i = fld"
      by (auto simp: in_set_conv_nth)
    with a have "parseField reg formHas (map decl_name decls) (decls ! i) = Inr fld"
      by (auto simp: list_all2_conv_all_nth)
    from parseField_Inr(3)[OF this that(2,3)] have "t \<in> set (map fieldName flds)"
      by (simp add: names)
    then obtain dep where "dep \<in> set flds" "fieldName dep = t"
      by auto
    then have "find (\<lambda>f. fieldName f = t) flds \<noteq> None"
      by (auto simp: find_None_iff)
    then show ?thesis by auto
  qed
qed

lemma ex_parse_index:
  "validatorsParser Validator_validators (str ''required|minLen:4'') =
     Inr [ref ''required'' [], ref ''minLen'' [''4'']]"
  "validatorsParser Validator_validators (str ''required|number|min:10|max:32'') =
     Inr [ref ''required'' [], ref ''number'' [], ref ''min'' [''10''], ref ''max'' [''32'']]"
  "validatorsParser Validator_validators (str ''email'') = Inr [ref ''email'' []]"
  "validatorsParser Validator_validators (str ''required|minLen:5'') =
     Inr [ref ''required'' [], ref ''minLen'' [''5'']]"
  "validatorsParser Validator_validators (str ''required|confirm:password'') =
     Inr [ref ''required'' [], ref ''confirm'' [''password'']]"
  "validatorsParser Validator_validators (str ''required|minLen:4|maxLen:5'') =
     Inr [ref ''required'' [], ref ''minLen'' [''4''], ref ''maxLen'' [''5'']]"
  by (simp_all add: validatorsParser_def parseSegment_def Validator_validators_def str_def
      trim_def isWhiteSpace_def validatorArgumentsParser_def getNumberOfValidatorArguments_def
      ref_def)

text \<open>The declarations of \<^verbatim>\<open>index.js\<close> compile to the fields used in the examples.\<close>

lemma index_fields_compile:
  "fieldsParser Validator_validators (\<lambda>n. True) indexFields =
     Inr [nameField, telField, ageField, mailOptional, passwordField, confirmField]"
  by (simp add: fieldsParser_def parseField_def indexFields_def ex_parse_index nameField_def
      telField_def ageField_def mailOptional_def passwordField_def confirmField_def)

section \<open>The e-mail pattern\<close>

lemma class_facts:
  "isLocalChar c \<Longrightarrow> c \<noteq> 64" "isDomainChar c \<Longrightarrow> c \<noteq> 64" "isAlpha c \<Longrightarrow> c \<noteq> 64"
  "isAlpha c \<Longrightarrow> c \<noteq> 46"
  by (auto simp: isLocalChar_def isDomainChar_def isAlnum_def isAlpha_def)

lemma takeWhile_stop:
  "\<forall>c \<in> set xs. c \<noteq> k \<Longrightarrow> takeWhile (\<lambda>c. c \<noteq> k) (xs @ k # ys) = xs"
  by (induction xs) auto

lemma dropWhile_stop:
  "\<forall>c \<in> set xs. c \<noteq> k \<Longrightarrow> dropWhile (\<lambda>c. c \<noteq> k) (xs @ k # ys) = k # ys"
  by (induction xs) auto

lemma email_test_unfold:
  "email_test s =
     (case dropWhile (\<lambda>c. c \<noteq> 64) s of
        [] \<Rightarrow> False
      | a # host \<Rightarrow>
          (case dropWhile (\<lambda>c. c \<noteq> 46) (rev host) of
             [] \<Rightarrow> False
           | b # rdom \<Rightarrow>
               takeWhile (\<lambda>c. c \<noteq> 64) s \<noteq> [] \<and>
               list_all isLocalChar (takeWhile (\<lambda>c. c \<noteq> 64) s) \<and>
               rdom \<noteq> [] \<and> list_all isDomainChar rdom \<and>
               2 \<le> length (rev (takeWhile (\<lambda>c. c \<noteq> 46) (rev host))) \<and>
               length (rev (takeWhile (\<lambda>c. c \<noteq> 46) (rev host))) \<le> 4 \<and>
               list_all isAlpha (rev (takeWhile (\<lambda>c. c \<noteq> 46) (rev host)))))"
  unfolding email_test_def Let_def by (rule refl)

text \<open>
  \<open>email_test\<close> is the match of the pattern: a non-empty local part of the first class,
  \<^verbatim>\<open>@\<close>, a non-empty part of the second class, a point, and two to four letters.
\<close>

lemma email_test_iff:
  "email_test s \<longleftrightarrow>
     (\<exists>local dom tld. s = local @ 64 # dom @ 46 # tld \<and>
        local \<noteq> [] \<and> list_all isLocalChar local \<and>
        dom \<noteq> [] \<and> list_all isDomainChar dom \<and>
        2 \<le> length tld \<and> length tld \<le> 4 \<and> list_all isAlpha tld)"
proof
  assume t: "email_test s"
  define local where "local = takeWhile (\<lambda>c. c \<noteq> 64) s"
  obtain a host where ar: "dropWhile (\<lambda>c. c \<noteq> 64) s = a # host"
  proof (cases "dropWhile (\<lambda>c. c \<noteq> 64) s")
    case Nil
    with t show ?thesis
      by (simp only: email_test_unfold list.case)
  next
    case (Cons a host)
    then show ?thesis by (rule that)
  qed
  have a: "a = 64"
    using hd_dropWhile[of "\<lambda>c. c \<noteq> 64" s] ar by auto
  have s: "s = local @ 64 # host"
    using takeWhile_dropWhile_id[of "\<lambda>c. c \<noteq> 64" s] ar a by (simp add: local_def)
  define tld where "tld = rev (takeWhile (\<lambda>c. c \<noteq> 46) (rev host))"
  obtain b rdom where dr: "dropWhile (\<lambda>c. c \<noteq> 46) (rev host) = b # rdom"
  proof (cases "dropWhile (\<lambda>c. c \<noteq> 46) (rev host)")
    case Nil
    with t ar show ?thesis
      by (simp only: email_test_unfold list.case)
  next
    case (Cons b rdom)
    then show ?thesis by (rule that)
  qed
  have b: "b = 46"
    using hd_dropWhile[of "\<lambda>c. c \<noteq> 46" "rev host"] dr by auto
  have "rev host = rev tld @ 46 # rdom"
    using takeWhile_dropWhile_id[of "\<lambda>c. c \<noteq> 46" "rev host"] dr b by (simp add: tld_def)
  then have "rev (rev host) = rev (rev tld @ 46 # rdom)"
    by simp
  then have host: "host = rev rdom @ 46 # tld"
    by simp
  from t have c: "local \<noteq> [] \<and> list_all isLocalChar local \<and>
                     rdom \<noteq> [] \<and> list_all isDomainChar rdom \<and>
                     2 \<le> length tld \<and> length tld \<le> 4 \<and> list_all isAlpha tld"
    unfolding local_def tld_def email_test_unfold ar dr list.case .
  have "s = local @ 64 # rev rdom @ 46 # tld"
    by (simp add: s host)
  moreover have "rev rdom \<noteq> []" "list_all isDomainChar (rev rdom)"
    using c by (simp_all add: list_all_iff)
  ultimately show "\<exists>local dom tld. s = local @ 64 # dom @ 46 # tld \<and>
        local \<noteq> [] \<and> list_all isLocalChar local \<and>
        dom \<noteq> [] \<and> list_all isDomainChar dom \<and>
        2 \<le> length tld \<and> length tld \<le> 4 \<and> list_all isAlpha tld"
    using c by blast
next
  assume "\<exists>local dom tld. s = local @ 64 # dom @ 46 # tld \<and>
        local \<noteq> [] \<and> list_all isLocalChar local \<and>
        dom \<noteq> [] \<and> list_all isDomainChar dom \<and>
        2 \<le> length tld \<and> length tld \<le> 4 \<and> list_all isAlpha tld"
  then obtain local dom tld where
    s: "s = local @ 64 # dom @ 46 # tld"
    and l: "local \<noteq> []" "list_all isLocalChar local"
    and d: "dom \<noteq> []" "list_all isDomainChar dom"
    and t: "2 \<le> length tld" "length tld \<le> 4" "list_all isAlpha tld"
    by blast
  have nl: "\<forall>c \<in> set local. c \<noteq> 64"
    using l(2) class_facts(1) by (auto simp: list_all_iff)
  have nt: "\<forall>c \<in> set (rev tld). c \<noteq> 46"
    using t(3) class_facts(4) by (auto simp: list_all_iff)
  have tw: "takeWhile (\<lambda>c. c \<noteq> 64) s = local"
    unfolding s by (rule takeWhile_stop[OF nl])
  have dw: "dropWhile (\<lambda>c. c \<noteq> 64) s = 64 # dom @ 46 # tld"
    unfolding s by (rule dropWhile_stop[OF nl])
  have rh: "rev (dom @ 46 # tld) = rev tld @ 46 # rev dom"
    by simp
  have tw2: "takeWhile (\<lambda>c. c \<noteq> 46) (rev (dom @ 46 # tld)) = rev tld"
    unfolding rh by (rule takeWhile_stop[OF nt])
  have dw2: "dropWhile (\<lambda>c. c \<noteq> 46) (rev (dom @ 46 # tld)) = 46 # rev dom"
    unfolding rh by (rule dropWhile_stop[OF nt])
  show "email_test s"
    unfolding email_test_unfold tw dw list.case tw2 dw2
    using l d t by (simp add: list_all_iff)
qed

end
